theory Spec2Isabelle
  imports Complex_Main
begin

section \<open>Values, errors and the HDF5 group\<close>

text \<open>
  The scripts of \<^verbatim>\<open>klaas/scripts\<close> are embedded as functions on explicit state.
  A Python exception is a value of \<open>error\<close>. A float is \<open>NaN\<close> or a finite value, taken
  as a real number: rounding and overflow to infinity are outside this model.
  The group \<^verbatim>\<open>f[key]\<close> of the HDF5 file is a map from dataset names to one-dimensional
  datasets. An operation on the file returns \<open>Inr g\<close> with the new group, or
  \<open>Inl (e, g)\<close>: the exception \<open>e\<close> was raised and the file was left as \<open>g\<close>.
\<close>

datatype error =
  Abort | KeyError | ValueError | TypeError | AssertionError | ClickException
  | ZeroDivisionError | IndexError

datatype fval = NaN | Fin real

type_synonym dataset = "fval list"

type_synonym group = "string \<rightharpoonup> dataset"

type_synonym outcome = "(error \<times> group) + group"

datatype yaml = YBool bool | YInt int | YStr string

record config =
  training_variables :: "string list"
  log_target :: "yaml option"
  class_name :: "string option"

text \<open>\<^verbatim>\<open>config.get('log_target', False)\<close> and
  \<^verbatim>\<open>config.get('class_name', 'gamma_energy') + '_prediction'\<close>.\<close>

definition get_log_target :: "config \<Rightarrow> yaml" where
  "get_log_target cfg = (case log_target cfg of None \<Rightarrow> YBool False | Some v \<Rightarrow> v)"

definition get_class_name :: "config \<Rightarrow> string" where
  "get_class_name cfg =
     (case class_name cfg of None \<Rightarrow> ''gamma_energy'' | Some n \<Rightarrow> n) @ ''_prediction''"

text \<open>\<^verbatim>\<open>'{}_std'.format(class_name)\<close>\<close>

definition std_name :: "string \<Rightarrow> string" where
  "std_name cn = cn @ ''_std''"

subsection \<open>The h5py operations the script uses\<close>

text \<open>
  \<^verbatim>\<open>del f[key][name]\<close> raises KeyError for a missing name; \<^verbatim>\<open>create_dataset\<close> raises
  for a name already in the group; \<^verbatim>\<open>resize\<close> truncates or extends with the fill
  value 0; a slice assignment clips the slice to the dataset's length, as Python slices
  do, and raises when the values do not fit the selection.
\<close>

definition del_dataset :: "string \<Rightarrow> group \<Rightarrow> outcome" where
  "del_dataset k g = (case g k of None \<Rightarrow> Inl (KeyError, g) | Some d \<Rightarrow> Inr (g(k := None)))"

definition create_dataset :: "string \<Rightarrow> dataset \<Rightarrow> group \<Rightarrow> outcome" where
  "create_dataset k d g = (case g k of None \<Rightarrow> Inr (g(k \<mapsto> d)) | Some d' \<Rightarrow> Inl (ValueError, g))"

definition resize :: "string \<Rightarrow> nat \<Rightarrow> group \<Rightarrow> outcome" where
  "resize k n g =
     (case g k of None \<Rightarrow> Inl (KeyError, g)
      | Some d \<Rightarrow> Inr (g(k \<mapsto> take n d @ replicate (n - length d) (Fin 0))))"

definition write_slice :: "string \<Rightarrow> nat \<Rightarrow> nat \<Rightarrow> fval list \<Rightarrow> group \<Rightarrow> outcome" where
  "write_slice k start stop vals g =
     (case g k of None \<Rightarrow> Inl (KeyError, g)
      | Some d \<Rightarrow>
          (let s = min start (length d); e = min stop (length d)
           in if s \<le> e then
                (if length vals = e - s then Inr (g(k \<mapsto> take s d @ vals @ drop e d))
                 else Inl (TypeError, g))
              else (if vals = [] then Inr g else Inl (TypeError, g))))"

definition seq :: "outcome \<Rightarrow> (group \<Rightarrow> outcome) \<Rightarrow> outcome" where
  "seq r f = (case r of Inl e \<Rightarrow> Inl e | Inr g \<Rightarrow> f g)"

section \<open>apply_regression_model.py\<close>

subsection \<open>The overwrite step (lines 44 to 52)\<close>

text \<open>
  \<open>yes\<close> is the command-line flag, \<open>confirm\<close> the user's answer to the prompt of
  \<^verbatim>\<open>click.confirm(..., abort=True)\<close>, which raises Abort on a refusal.
\<close>

definition overwrite_step :: "bool \<Rightarrow> bool \<Rightarrow> string \<Rightarrow> group \<Rightarrow> outcome" where
  "overwrite_step yes confirm cn g =
     (case g cn of
        Some d \<Rightarrow>
          (if \<not> yes \<and> \<not> confirm then Inl (Abort, g)
           else seq (del_dataset cn g) (del_dataset (std_name cn)))
      | None \<Rightarrow> Inr g)"

subsection \<open>One chunk (lines 71 to 87)\<close>

text \<open>\<^verbatim>\<open>np.exp\<close>, and \<^verbatim>\<open>np.mean\<close> and \<^verbatim>\<open>np.std\<close> of one column: NaN when a member of
  the column is NaN or the column is empty.\<close>

definition np_exp :: "fval \<Rightarrow> fval" where
  "np_exp v = (case v of NaN \<Rightarrow> NaN | Fin x \<Rightarrow> Fin (exp x))"

fun reals_of :: "fval list \<Rightarrow> real list option" where
  "reals_of [] = Some []"
| "reals_of (NaN # vs) = None"
| "reals_of (Fin x # vs) = (case reals_of vs of None \<Rightarrow> None | Some xs \<Rightarrow> Some (x # xs))"

definition mean :: "real list \<Rightarrow> real" where
  "mean xs = sum_list xs / real (length xs)"

definition std :: "real list \<Rightarrow> real" where
  "std xs = sqrt (mean (map (\<lambda>x. (x - mean xs)\<^sup>2) xs))"

definition np_mean :: "fval list \<Rightarrow> fval" where
  "np_mean col =
     (case reals_of col of None \<Rightarrow> NaN
      | Some xs \<Rightarrow> if xs = [] then NaN else Fin (mean xs))"

definition np_std :: "fval list \<Rightarrow> fval" where
  "np_std col =
     (case reals_of col of None \<Rightarrow> NaN
      | Some xs \<Rightarrow> if xs = [] then NaN else Fin (std xs))"

text \<open>
  \<^verbatim>\<open>np.array([t.predict(...) for t in model.estimators_])\<close> is a matrix with one row for
  each ensemble member; members that return different numbers of values give no
  matrix. A reduction along axis 0 gives one value for each column, and of the empty
  array (no member) the scalar NaN.
\<close>

datatype ndarray = Scalar fval | Vec "fval list"

definition np_array :: "fval list list \<Rightarrow> error + fval list list" where
  "np_array ps =
     (case ps of [] \<Rightarrow> Inr []
      | p # qs \<Rightarrow> if list_all (\<lambda>q. length q = length p) qs then Inr ps else Inl ValueError)"

definition column :: "fval list list \<Rightarrow> nat \<Rightarrow> fval list" where
  "column ps j = map (\<lambda>p. p ! j) ps"

definition reduce_axis0 :: "(fval list \<Rightarrow> fval) \<Rightarrow> fval list list \<Rightarrow> ndarray" where
  "reduce_axis0 f ps =
     (case ps of [] \<Rightarrow> Scalar NaN
      | p # qs \<Rightarrow> Vec (map (\<lambda>j. f (column ps j)) [0..<length p]))"

text \<open>\<^verbatim>\<open>df.loc[valid]\<close>: the rows whose mask entry is true.\<close>

definition loc_mask :: "'a list \<Rightarrow> bool list \<Rightarrow> 'a list" where
  "loc_mask xs msk = map fst (filter snd (zip xs msk))"

text \<open>
  \<^verbatim>\<open>a[mask] = v\<close>: the entries of \<open>a\<close> under a true mask entry take the values of \<open>v\<close> in
  order. A scalar or a single value is broadcast; any other number of values than
  true mask entries raises ValueError.
\<close>

fun put_mask :: "fval list \<Rightarrow> bool list \<Rightarrow> fval list \<Rightarrow> fval list" where
  "put_mask (a # as) (m # ms) vs =
     (if m then (case vs of [] \<Rightarrow> a # put_mask as ms [] | v # ws \<Rightarrow> v # put_mask as ms ws)
      else a # put_mask as ms vs)"
| "put_mask as ms vs = as"

definition masked_assign :: "fval list \<Rightarrow> bool list \<Rightarrow> ndarray \<Rightarrow> error + fval list" where
  "masked_assign a msk v =
     (let n = length (filter id msk)
      in case v of
           Scalar x \<Rightarrow> Inr (put_mask a msk (replicate n x))
         | Vec vs \<Rightarrow>
             if length vs = n then Inr (put_mask a msk vs)
             else if length vs = 1 then Inr (put_mask a msk (replicate n (hd vs)))
             else Inl ValueError)"

text \<open>
  An ensemble member is its \<^verbatim>\<open>predict\<close>: from the rows it is given to one value each,
  or an exception. \<^verbatim>\<open>predict\<close> of scikit-learn validates its input first
  (\<^verbatim>\<open>check_array\<close>) and raises ValueError for an input of zero rows. The list
  comprehension of line 76 calls the members in order and ends with the first exception.
\<close>

type_synonym 'r member = "'r list \<Rightarrow> error + fval list"

definition sk_predict :: "'r member \<Rightarrow> 'r list \<Rightarrow> error + fval list" where
  "sk_predict t X = (if X = [] then Inl ValueError else t X)"

fun predict_all :: "'r member list \<Rightarrow> 'r list \<Rightarrow> error + fval list list" where
  "predict_all [] X = Inr []"
| "predict_all (t # ts) X =
     (case sk_predict t X of
        Inl e \<Rightarrow> Inl e
      | Inr p \<Rightarrow> (case predict_all ts X of Inl e \<Rightarrow> Inl e | Inr ps \<Rightarrow> Inr (p # ps)))"


text \<open>
  The body of the loop up to the two output arrays. \<open>convert_to_float32\<close> and
  \<open>check_valid_rows\<close> (of \<^verbatim>\<open>klaas.preprocessing\<close>) are parameters, acting on a row.
\<close>

definition predict_chunk ::
  "('r \<Rightarrow> 'r) \<Rightarrow> ('r \<Rightarrow> bool) \<Rightarrow> 'r member list \<Rightarrow> yaml \<Rightarrow> 'r list
     \<Rightarrow> error + (fval list \<times> fval list)" where
  "predict_chunk convert_to_float32 check_valid_rows estimators lt df_data =
     (let rows = map convert_to_float32 df_data;
          valid = map check_valid_rows rows;
          energy_prediction = replicate (length df_data) NaN;
          energy_prediction_std = replicate (length df_data) NaN
      in case predict_all estimators (loc_mask rows valid) of
           Inl e \<Rightarrow> Inl e
         | Inr outs \<Rightarrow>
      case np_array outs of
           Inl e \<Rightarrow> Inl e
         | Inr ps \<Rightarrow>
             (let predictions = (if lt = YBool True then map (map np_exp) ps else ps)
              in case masked_assign energy_prediction valid (reduce_axis0 np_mean predictions) of
                   Inl e \<Rightarrow> Inl e
                 | Inr ep \<Rightarrow>
                     (case masked_assign energy_prediction_std valid
                             (reduce_axis0 np_std predictions) of
                        Inl e \<Rightarrow> Inl e
                      | Inr es \<Rightarrow> Inr (ep, es))))"

subsection \<open>Writing one chunk (lines 89 to 106)\<close>

definition write_chunk :: "string \<Rightarrow> nat \<Rightarrow> nat \<Rightarrow> fval list \<Rightarrow> fval list \<Rightarrow> group \<Rightarrow> outcome" where
  "write_chunk cn start stop ep es g =
     (case g cn of
        Some d \<Rightarrow>
          (let n_existing = length d; n_new = length ep
           in seq (resize cn (n_existing + n_new) g) (\<lambda>g1.
              seq (write_slice cn start stop ep g1) (\<lambda>g2.
              seq (resize (std_name cn) (n_existing + n_new) g2) (\<lambda>g3.
              write_slice (std_name cn) start stop es g3))))
      | None \<Rightarrow> seq (create_dataset cn ep g) (create_dataset (std_name cn) es))"

subsection \<open>The reader and the loop (lines 61 to 106)\<close>

text \<open>
  \<^verbatim>\<open>read_h5py_chunked\<close> belongs to the external package \<^verbatim>\<open>fact.io\<close>. It yields the rows
  in consecutive windows of \<open>chunksize\<close> rows, the last one possibly shorter, each with
  its row range \<open>(start, end)\<close>; without a chunk size it yields one window with all rows.
\<close>

definition read_h5py_chunked ::
  "nat option \<Rightarrow> 'r list \<Rightarrow> error + ('r list \<times> nat \<times> nat) list" where
  "read_h5py_chunked chunksize data =
     (let n_events = length data
      in case chunksize of
           None \<Rightarrow> Inr [(data, 0, n_events)]
         | Some c \<Rightarrow>
             if c = 0 then Inl ZeroDivisionError
             else Inr (map (\<lambda>chunk.
                         let start = chunk * c; stop = min n_events ((chunk + 1) * c)
                         in (take (stop - start) (drop start data), start, stop))
                       [0..<(n_events + c - 1) div c]))"

fun predict_loop ::
  "('r \<Rightarrow> 'r) \<Rightarrow> ('r \<Rightarrow> bool) \<Rightarrow> 'r member list \<Rightarrow> yaml \<Rightarrow> string
     \<Rightarrow> ('r list \<times> nat \<times> nat) list \<Rightarrow> group \<Rightarrow> outcome" where
  "predict_loop conv chk ests lt cn [] g = Inr g"
| "predict_loop conv chk ests lt cn ((df_data, start, stop) # rest) g =
     (case predict_chunk conv chk ests lt df_data of
        Inl e \<Rightarrow> Inl (e, g)
      | Inr (ep, es) \<Rightarrow> seq (write_chunk cn start stop ep es g) (predict_loop conv chk ests lt cn rest))"

definition main_regression ::
  "config \<Rightarrow> bool \<Rightarrow> bool \<Rightarrow> ('r \<Rightarrow> 'r) \<Rightarrow> ('r \<Rightarrow> bool) \<Rightarrow> 'r member list
     \<Rightarrow> nat option \<Rightarrow> 'r list \<Rightarrow> group \<Rightarrow> outcome" where
  "main_regression cfg yes confirm conv chk ests chunksize data g =
     (let lt = get_log_target cfg; cn = get_class_name cfg
      in seq (overwrite_step yes confirm cn g) (\<lambda>g0.
           case read_h5py_chunked chunksize data of
             Inl e \<Rightarrow> Inl (e, g0)
           | Inr chunks \<Rightarrow> predict_loop conv chk ests lt cn chunks g0))"

text \<open>
  For examples: rows of one feature. The conversion leaves a row as it is, a row is valid
  when its feature is not NaN, and the member predicts 1 for every row it is given.
\<close>

definition example_convert :: "fval \<Rightarrow> fval" where
  "example_convert r = r"

definition example_valid :: "fval \<Rightarrow> bool" where
  "example_valid r \<longleftrightarrow> r \<noteq> NaN"

definition example_member :: "fval member" where
  "example_member X = Inr (map (\<lambda>r. Fin 1) X)"

text \<open>
  What the loop relies on in the windows it is given: the first one starts at the offset
  \<open>s\<close>, each one ends where the next one starts, and each range has the length of its
  rows.
\<close>

fun contiguous :: "nat \<Rightarrow> ('r list \<times> nat \<times> nat) list \<Rightarrow> bool" where
  "contiguous s [] = True"
| "contiguous s ((df, start, stop) # rest) =
     (start = s \<and> stop = s + length df \<and> contiguous stop rest)"

section \<open>split_data.py\<close>

text \<open>
  Python 3's \<^verbatim>\<open>round\<close> of a float: the nearest integer, a tie going to the even
  neighbour. The fractions are taken as real numbers.
\<close>

definition py_round :: "real \<Rightarrow> int" where
  "py_round x =
     (let f = \<lfloor>x\<rfloor>; d = x - of_int f
      in if d < 1 / 2 then f else if 1 / 2 < d then f + 1 else if even f then f else f + 1)"

text \<open>Lines 45 to 48: the rounded counts, the overflow taken from the last one.\<close>

definition num_events :: "nat \<Rightarrow> real list \<Rightarrow> int list" where
  "num_events n_total fraction =
     (let ne = map (\<lambda>f. py_round (real n_total * f)) fraction
      in if int n_total < sum_list ne
         then ne[length ne - 1 := last ne - (sum_list ne - int n_total)]
         else ne)"

text \<open>
  \<^verbatim>\<open>np.random.choice(all_idx, size=n, replace=False)\<close>: a ValueError for a negative size
  and for a sample larger than the population; otherwise the generator \<open>rng\<close>, a
  parameter with its own state, draws the sample. A generator is a \<open>sampler\<close> when each
  sample from a population without repetitions has the size asked for and consists of
  different elements of the population.
\<close>

definition random_choice ::
  "('s \<Rightarrow> nat list \<Rightarrow> nat \<Rightarrow> nat list \<times> 's) \<Rightarrow> 's \<Rightarrow> nat list \<Rightarrow> int
     \<Rightarrow> error + (nat list \<times> 's)" where
  "random_choice rng s a sz =
     (if sz < 0 \<or> int (length a) < sz then Inl ValueError
      else Inr (rng s a (nat sz)))"

definition sampler :: "('s \<Rightarrow> nat list \<Rightarrow> nat \<Rightarrow> nat list \<times> 's) \<Rightarrow> bool" where
  "sampler rng \<longleftrightarrow>
     (\<forall>s a k. k \<le> length a \<and> distinct a \<longrightarrow>
        length (fst (rng s a k)) = k \<and> distinct (fst (rng s a k)) \<and> set (fst (rng s a k)) \<subseteq> set a)"

text \<open>One generator, for examples: it draws the first elements of the population.\<close>

definition first_rows :: "unit \<Rightarrow> nat list \<Rightarrow> nat \<Rightarrow> nat list \<times> unit" where
  "first_rows s a k = (take k a, s)"

datatype fmt = Hdf5 | Csv

definition output_path :: "string \<Rightarrow> string \<Rightarrow> fmt \<Rightarrow> string" where
  "output_path output_basename part_name f =
     output_basename @ ''_'' @ part_name @ (case f of Hdf5 \<Rightarrow> ''.hdf5'' | Csv \<Rightarrow> ''.csv'')"

text \<open>
  The loop of lines 50 to 66. \<open>data\<close> is the list of the rows still in the pool, each
  row with its index label. The result is the list of the files written, as paths with
  their rows; an exception comes with the files written before it. The rows that stay
  in the pool are kept in their order (the order Python gives the set difference does
  not matter for what is proved).
\<close>

fun sample_parts ::
  "('s \<Rightarrow> nat list \<Rightarrow> nat \<Rightarrow> nat list \<times> 's) \<Rightarrow> 's \<Rightarrow> string \<Rightarrow> fmt \<Rightarrow> 'a list
     \<Rightarrow> (int \<times> string) list
     \<Rightarrow> (error \<times> (string \<times> 'a list) list) + (string \<times> 'a list) list" where
  "sample_parts rng s base f data [] = Inr []"
| "sample_parts rng s base f data ((n, part_name) # rest) =
     (let all_idx = [0..<length data]
      in case random_choice rng s all_idx n of
           Inl e \<Rightarrow> Inl (e, [])
         | Inr (selected, s') \<Rightarrow>
             (let written = (output_path base part_name f, map (\<lambda>i. data ! i) selected);
                  data' = map (\<lambda>i. data ! i) (filter (\<lambda>i. i \<notin> set selected) all_idx)
              in case sample_parts rng s' base f data' rest of
                   Inl (e, files) \<Rightarrow> Inl (e, written # files)
                 | Inr files \<Rightarrow> Inr (written # files)))"

text \<open>The script: the warnings it emits, and the outcome of the loop.\<close>

definition main_split ::
  "('s \<Rightarrow> nat list \<Rightarrow> nat \<Rightarrow> nat list \<times> 's) \<Rightarrow> 's \<Rightarrow> 'a list \<Rightarrow> string \<Rightarrow> real list
     \<Rightarrow> string list \<Rightarrow> fmt
     \<Rightarrow> string list \<times> ((error \<times> (string \<times> 'a list) list) + (string \<times> 'a list) list)" where
  "main_split rng s data output_basename fraction name f =
     (if length fraction \<noteq> length name then ([], Inl (AssertionError, []))
      else
        (let warnings = (if sum_list fraction \<noteq> 1 then [''Fractions do not sum up to 1''] else []);
             n_total = length data;
             ne = num_events n_total fraction
         in (warnings, sample_parts rng s output_basename f data (zip ne name))))"

section \<open>apply_separation_model.py\<close>

text \<open>
  The script first asks \<^verbatim>\<open>has_source_dependent_columns(config.columns_to_read)\<close> and
  raises a \<^verbatim>\<open>ClickException\<close> on a yes; everything else comes after it.
  \<open>has_source_dependent_columns\<close> (of \<^verbatim>\<open>klaas.features\<close>) is a parameter, and so is
  the rest of the script (the check of the existing column, the loading of the model and
  the prediction loop, built on \<^verbatim>\<open>klaas.io\<close> and \<^verbatim>\<open>klaas.apply\<close>).
\<close>

record klaas_config =
  columns_to_read :: "string list"

definition main_separation ::
  "(string list \<Rightarrow> bool) \<Rightarrow> klaas_config \<Rightarrow> (group \<Rightarrow> outcome) \<Rightarrow> group \<Rightarrow> outcome" where
  "main_separation has_source_dependent_columns cfg rest g =
     (if has_source_dependent_columns (columns_to_read cfg) then Inl (ClickException, g)
      else rest g)"

section \<open>train_energy_regressor.py\<close>

text \<open>
  The cross validation of lines 105 to 128. The regressor is an object with a state
  \<open>'m\<close>: \<open>fit\<close> takes the state before the call and returns the state after it,
  \<open>predict\<close> reads it. \<open>fit\<close>, \<open>predict\<close> and \<open>r2_score\<close> belong to scikit-learn and are
  parameters, and so are the folds of \<^verbatim>\<open>KFold.split\<close>, each with its number from
  \<^verbatim>\<open>enumerate\<close>. \<^verbatim>\<open>values[idx]\<close> raises IndexError for an index out of range.
\<close>

type_synonym fold_result = "real \<times> real list \<times> real list \<times> nat"

definition rows :: "'a list \<Rightarrow> nat list \<Rightarrow> error + 'a list" where
  "rows xs idx =
     (if list_all (\<lambda>i. i < length xs) idx then Inr (map (\<lambda>i. xs ! i) idx) else Inl IndexError)"

text \<open>\<^verbatim>\<open>if log_target is True: v = np.exp(v)\<close>\<close>

definition undo_log :: "yaml \<Rightarrow> real list \<Rightarrow> real list" where
  "undo_log lt v = (if lt = YBool True then map exp v else v)"

fun cv_loop ::
  "('m \<Rightarrow> 'x list \<Rightarrow> real list \<Rightarrow> 'm) \<Rightarrow> ('m \<Rightarrow> 'x list \<Rightarrow> real list)
     \<Rightarrow> (real list \<Rightarrow> real list \<Rightarrow> real) \<Rightarrow> yaml \<Rightarrow> 'x list \<Rightarrow> real list
     \<Rightarrow> (nat \<times> nat list \<times> nat list) list \<Rightarrow> 'm \<Rightarrow> error + (fold_result list \<times> 'm)" where
  "cv_loop fit predict r2_score lt X y [] regressor = Inr ([], regressor)"
| "cv_loop fit predict r2_score lt X y ((cv_fold, train, test) # rest) regressor =
     (case rows X train of Inl e \<Rightarrow> Inl e | Inr cv_x_train \<Rightarrow>
      case rows X test of Inl e \<Rightarrow> Inl e | Inr cv_x_test \<Rightarrow>
      case rows y train of Inl e \<Rightarrow> Inl e | Inr cv_y_train \<Rightarrow>
      case rows y test of Inl e \<Rightarrow> Inl e | Inr cv_y_test \<Rightarrow>
        (let fitted = fit regressor cv_x_train cv_y_train;
             cv_y_prediction = predict fitted cv_x_test;
             label = undo_log lt cv_y_test;
             label_prediction = undo_log lt cv_y_prediction;
             score = r2_score label label_prediction
         in case cv_loop fit predict r2_score lt X y rest fitted of
              Inl e \<Rightarrow> Inl e
            | Inr (results, final) \<Rightarrow>
                Inr ((score, label, label_prediction, cv_fold) # results, final)))"

text \<open>
  What the specification says of one fold: a fresh copy of the configured estimator is
  fitted on the training subset and predicts on the held-out subset, and the log
  transform is undone before the score is computed.
\<close>

definition fresh_copy_fold ::
  "('m \<Rightarrow> 'x list \<Rightarrow> real list \<Rightarrow> 'm) \<Rightarrow> ('m \<Rightarrow> 'x list \<Rightarrow> real list)
     \<Rightarrow> (real list \<Rightarrow> real list \<Rightarrow> real) \<Rightarrow> yaml \<Rightarrow> 'x list \<Rightarrow> real list \<Rightarrow> 'm
     \<Rightarrow> nat \<times> nat list \<times> nat list \<Rightarrow> fold_result" where
  "fresh_copy_fold fit predict r2_score lt X y configured c =
     (case c of (cv_fold, train, test) \<Rightarrow>
        (let fitted = fit configured (map (\<lambda>i. X ! i) train) (map (\<lambda>i. y ! i) train);
             label = undo_log lt (map (\<lambda>i. y ! i) test);
             label_prediction = undo_log lt (predict fitted (map (\<lambda>i. X ! i) test))
         in (r2_score label label_prediction, label, label_prediction, cv_fold)))"

text \<open>
  Estimators and a score for examples. \<open>mean_fit\<close> learns the mean of the labels and
  forgets what it had learnt; \<open>keep_first_fit\<close> keeps what an earlier call has learnt,
  as a scikit-learn ensemble with \<^verbatim>\<open>warm_start=True\<close> keeps its trees; both predict
  the learnt value for every row. \<open>r2_score\<close> is the coefficient of determination.
\<close>

definition mean_fit :: "real option \<Rightarrow> real list \<Rightarrow> real list \<Rightarrow> real option" where
  "mean_fit m xs ys = Some (mean ys)"

definition keep_first_fit :: "real option \<Rightarrow> real list \<Rightarrow> real list \<Rightarrow> real option" where
  "keep_first_fit m xs ys = (case m of None \<Rightarrow> Some (mean ys) | Some c \<Rightarrow> Some c)"

definition const_predict :: "real option \<Rightarrow> real list \<Rightarrow> real list" where
  "const_predict m xs = map (\<lambda>x. case m of None \<Rightarrow> 0 | Some c \<Rightarrow> c) xs"

definition r2_score :: "real list \<Rightarrow> real list \<Rightarrow> real" where
  "r2_score y_true y_pred =
     (let ss_res = sum_list (map (\<lambda>(t, p). (t - p)\<^sup>2) (zip y_true y_pred));
          ss_tot = sum_list (map (\<lambda>t. (t - mean y_true)\<^sup>2) y_true)
      in if ss_tot = 0 then (if ss_res = 0 then 1 else 0) else 1 - ss_res / ss_tot)"

section \<open>Properties of apply_regression_model.py\<close>

lemma std_name_neq: "std_name cn \<noteq> cn"
  by (simp add: std_name_def)

subsection \<open>Masks and reductions\<close>

lemma loc_mask_filter: "loc_mask xs (map p xs) = filter p xs"
  by (induction xs) (auto simp: loc_mask_def)

lemma count_mask: "length (filter id (map p xs)) = length (filter p xs)"
  by (induction xs) auto

lemma length_put_mask [simp]: "length (put_mask a ms vs) = length a"
  by (induction a ms vs rule: put_mask.induct) (auto split: list.splits)

lemma put_mask_nth:
  "length ms = length a \<Longrightarrow> length vs = length (filter id ms) \<Longrightarrow> i < length a \<Longrightarrow>
   put_mask a ms vs ! i = (if ms ! i then vs ! length (filter id (take i ms)) else a ! i)"
proof (induction a ms vs arbitrary: i rule: put_mask.induct)
  case (1 a as m ms vs)
  then show ?case
    by (cases i; cases vs) (auto)
qed auto

lemma reals_of_Fin [simp]: "reals_of (map Fin xs) = Some xs"
  by (induction xs) auto

lemma reals_of_Some: "\<forall>v\<in>set vs. v \<noteq> NaN \<Longrightarrow> \<exists>xs. reals_of vs = Some xs \<and> length xs = length vs"
proof (induction vs)
  case (Cons v vs) then show ?case by (cases v) auto
qed simp

lemma np_array_ok:
  "\<forall>p\<in>set ps. length p = n \<Longrightarrow> np_array ps = Inr ps"
  by (cases ps) (auto simp: np_array_def list_all_iff)

lemma reduce_axis0_Vec:
  "ps \<noteq> [] \<Longrightarrow> \<forall>p\<in>set ps. length p = n \<Longrightarrow>
   reduce_axis0 f ps = Vec (map (\<lambda>j. f (column ps j)) [0..<n])"
  by (cases ps) (auto simp: reduce_axis0_def)

lemma rank_less:
  "i < length xs \<Longrightarrow> q (xs ! i) \<Longrightarrow> length (filter q (take i xs)) < length (filter q xs)"
proof -
  assume i: "i < length xs" and q: "q (xs ! i)"
  have "xs = take i xs @ xs ! i # drop (Suc i) xs"
    using i by (simp add: id_take_nth_drop)
  then have "filter q xs = filter q (take i xs) @ filter q (xs ! i # drop (Suc i) xs)"
    by (metis filter_append)
  then show ?thesis using q by simp
qed

lemma np_exp_Fin: "v \<noteq> NaN \<Longrightarrow> np_exp v \<noteq> NaN"
  by (cases v) (simp_all add: np_exp_def)

lemma np_mean_Fin: "col \<noteq> [] \<Longrightarrow> \<forall>v\<in>set col. v \<noteq> NaN \<Longrightarrow> \<exists>x. np_mean col = Fin x"
  using reals_of_Some [of col] by (auto simp: np_mean_def)

lemma np_std_Fin: "col \<noteq> [] \<Longrightarrow> \<forall>v\<in>set col. v \<noteq> NaN \<Longrightarrow> \<exists>x. np_std col = Fin x"
  using reals_of_Some [of col] by (auto simp: np_std_def)

lemma np_mean_map_Fin: "xs \<noteq> [] \<Longrightarrow> np_mean (map Fin xs) = Fin (mean xs)"
  by (simp add: np_mean_def)

lemma np_std_map_Fin: "xs \<noteq> [] \<Longrightarrow> np_std (map Fin xs) = Fin (std xs)"
  by (simp add: np_std_def)

lemma predict_all_ok:
  "ests = [] \<or> X \<noteq> [] \<Longrightarrow> \<forall>t\<in>set ests. t X = Inr (q t) \<Longrightarrow>
   predict_all ests X = Inr (map q ests)"
  by (induction ests) (auto simp: sk_predict_def)

lemma predict_all_no_rows: "ests \<noteq> [] \<Longrightarrow> predict_all ests [] = Inl ValueError"
  by (cases ests) (simp_all add: sk_predict_def)

subsection \<open>The outputs of one chunk\<close>

lemma predict_chunk_nth:
  fixes conv :: "'r \<Rightarrow> 'r" and chk :: "'r \<Rightarrow> bool" and lt :: yaml
    and ests :: "'r member list" and df :: "'r list" and q :: "'r member \<Rightarrow> fval list"
  assumes mem: "\<forall>t\<in>set ests. t (filter chk (map conv df)) = Inr (q t)
                   \<and> length (q t) = length (filter chk (map conv df))"
    and rows: "ests = [] \<or> filter chk (map conv df) \<noteq> []"
  defines "g \<equiv> (if lt = YBool True then np_exp else (\<lambda>v. v))"
  shows "\<exists>ep es. predict_chunk conv chk ests lt df = Inr (ep, es)
           \<and> length ep = length df \<and> length es = length df
           \<and> (\<forall>i<length df.
                 if chk (conv (df ! i))
                 then ep ! i = (if ests = [] then NaN
                                else np_mean (map (\<lambda>t. g (q t ! length (filter chk (map conv (take i df))))) ests))
                    \<and> es ! i = (if ests = [] then NaN
                                else np_std (map (\<lambda>t. g (q t ! length (filter chk (map conv (take i df))))) ests))
                 else ep ! i = NaN \<and> es ! i = NaN)"
proof -
  define vrows where "vrows = filter chk (map conv df)"
  define n where "n = length vrows"
  define valid where "valid = map chk (map conv df)"
  define ps where "ps = map q ests"
  define ps' where "ps' = (if lt = YBool True then map (map np_exp) ps else ps)"
  define vals where "vals f = (if ests = [] then replicate n NaN else map (\<lambda>j. f (column ps' j)) [0..<n])" for f
  have cnt: "length (filter id valid) = n"
    by (simp add: valid_def n_def vrows_def count_mask)
  have psl: "\<forall>p\<in>set ps. length p = n"
    using mem by (auto simp: ps_def n_def vrows_def)
  then have psl': "\<forall>p\<in>set ps'. length p = n"
    by (auto simp: ps'_def)
  have outs: "predict_all ests vrows = Inr ps"
    unfolding ps_def using rows mem by (intro predict_all_ok) (auto simp: vrows_def)
  have arr: "np_array ps = Inr ps"
    using psl by (rule np_array_ok)
  have ma: "masked_assign (replicate (length df) NaN) valid (reduce_axis0 f ps')
              = Inr (put_mask (replicate (length df) NaN) valid (vals f))" for f
  proof (cases "ests = []")
    case True
    then show ?thesis
      by (simp add: ps'_def ps_def reduce_axis0_def masked_assign_def cnt vals_def)
  next
    case False
    then have "ps' \<noteq> []" by (simp add: ps'_def ps_def)
    then have "reduce_axis0 f ps' = Vec (vals f)"
      using psl' False by (simp add: reduce_axis0_Vec vals_def)
    then show ?thesis
      using False by (simp add: masked_assign_def cnt vals_def)
  qed
  have pc: "predict_chunk conv chk ests lt df
              = Inr (put_mask (replicate (length df) NaN) valid (vals np_mean),
                     put_mask (replicate (length df) NaN) valid (vals np_std))"
  proof -
    let ?R = "replicate (length df) NaN"
    have "predict_chunk conv chk ests lt df
            = (case predict_all ests vrows of Inl e \<Rightarrow> Inl e
               | Inr outs \<Rightarrow>
              case np_array outs of Inl e \<Rightarrow> Inl e
               | Inr qs \<Rightarrow>
                   (case masked_assign ?R valid
                           (reduce_axis0 np_mean (if lt = YBool True then map (map np_exp) qs else qs)) of
                      Inl e \<Rightarrow> Inl e
                    | Inr ep \<Rightarrow>
                        (case masked_assign ?R valid
                                (reduce_axis0 np_std (if lt = YBool True then map (map np_exp) qs else qs)) of
                           Inl e \<Rightarrow> Inl e
                         | Inr es \<Rightarrow> Inr (ep, es))))"
      unfolding predict_chunk_def Let_def loc_mask_filter valid_def vrows_def ..
    also have "\<dots> = (case masked_assign ?R valid (reduce_axis0 np_mean ps') of
                      Inl e \<Rightarrow> Inl e
                    | Inr ep \<Rightarrow>
                        (case masked_assign ?R valid (reduce_axis0 np_std ps') of
                           Inl e \<Rightarrow> Inl e
                         | Inr es \<Rightarrow> Inr (ep, es)))"
      by (simp only: outs arr sum.case ps'_def)
    also have "\<dots> = Inr (put_mask ?R valid (vals np_mean), put_mask ?R valid (vals np_std))"
      by (simp only: ma sum.case)
    finally show ?thesis .
  qed
  have lv: "length (vals f) = length (filter id valid)" for f
    by (simp add: vals_def cnt)
  have col: "column ps' j = map (\<lambda>t. g (q t ! j)) ests" if "j < n" for j
    using that psl by (auto simp: column_def ps'_def ps_def g_def)
  have nth: "put_mask (replicate (length df) NaN) valid (vals f) ! i
               = (if chk (conv (df ! i))
                  then (if ests = [] then NaN
                        else f (map (\<lambda>t. g (q t ! length (filter chk (map conv (take i df))))) ests))
                  else NaN)" if i: "i < length df" for f i
  proof -
    let ?j = "length (filter id (take i valid))"
    have j: "?j = length (filter chk (map conv (take i df)))"
      by (simp add: valid_def take_map count_mask)
    have *: "put_mask (replicate (length df) NaN) valid (vals f) ! i
           = (if valid ! i then vals f ! ?j else NaN)"
      using i lv [of f] by (subst put_mask_nth) (auto simp: valid_def)
    show ?thesis
    proof (cases "chk (conv (df ! i))")
      case False
      then show ?thesis using * i by (simp add: valid_def)
    next
      case True
      have "take (Suc i) valid = take i valid @ [valid ! i]"
        using i by (simp add: take_Suc_conv_app_nth valid_def)
      then have "length (filter id (take (Suc i) valid)) = Suc ?j"
        using True i by (simp add: valid_def)
      moreover have "length (filter id (take (Suc i) valid)) \<le> length (filter id valid)"
        by (metis append_take_drop_id filter_append length_append le_add1)
      ultimately have jn: "?j < n" using cnt by simp
      have v: "valid ! i" using True i by (simp add: valid_def)
      have "put_mask (replicate (length df) NaN) valid (vals f) ! i = vals f ! ?j"
        using * v by simp
      also have "\<dots> = (if ests = [] then NaN else f (column ps' ?j))"
        using jn by (simp add: vals_def)
      also have "\<dots> = (if ests = [] then NaN else f (map (\<lambda>t. g (q t ! ?j)) ests))"
        by (simp only: col [OF jn])
      finally show ?thesis
        unfolding j using True by simp
    qed
  qed
  show ?thesis
    using pc nth by (auto simp: )
qed

lemma predict_chunk_no_valid_row:
  assumes "ests \<noteq> []" and "filter chk (map conv df) = []"
  shows "predict_chunk conv chk ests lt df = Inl ValueError"
  using assms by (simp add: predict_chunk_def Let_def loc_mask_filter predict_all_no_rows)

lemma predict_chunk_lengths:
  assumes "predict_chunk conv chk ests lt df = Inr (ep, es)"
  shows "length ep = length df \<and> length es = length df"
  using assms
  by (auto simp: predict_chunk_def Let_def masked_assign_def
      split: sum.splits ndarray.splits if_splits)


lemma chunk_with_valid_row:
  fixes conv :: "'r \<Rightarrow> 'r" and chk :: "'r \<Rightarrow> bool" and lt :: yaml
    and ests :: "'r member list" and df :: "'r list"
  assumes mem: "\<forall>t\<in>set ests. \<exists>p. t (filter chk (map conv df)) = Inr p
                   \<and> length p = length (filter chk (map conv df))"
    and rows: "ests = [] \<or> filter chk (map conv df) \<noteq> []"
  shows "\<exists>ep es. predict_chunk conv chk ests lt df = Inr (ep, es)
           \<and> length ep = length df \<and> length es = length df
           \<and> (\<forall>i<length df. \<not> chk (conv (df ! i)) \<longrightarrow> ep ! i = NaN \<and> es ! i = NaN)
           \<and> (ests \<noteq> [] \<and> (\<forall>t\<in>set ests. \<forall>v\<in>set (projr (t (filter chk (map conv df)))). v \<noteq> NaN)
                \<longrightarrow> (\<forall>i<length df. chk (conv (df ! i)) \<longrightarrow> (\<exists>x y. ep ! i = Fin x \<and> es ! i = Fin y)))"
proof -
  let ?vrows = "filter chk (map conv df)"
  let ?q = "\<lambda>t. projr (t ?vrows)"
  let ?g = "if lt = YBool True then np_exp else (\<lambda>v. v)"
  let ?col = "\<lambda>i. map (\<lambda>t. ?g (?q t ! length (filter chk (map conv (take i df))))) ests"
  have mem': "\<forall>t\<in>set ests. t ?vrows = Inr (?q t) \<and> length (?q t) = length ?vrows"
  proof
    fix t assume "t \<in> set ests"
    with mem obtain p where "t ?vrows = Inr p" "length p = length ?vrows" by blast
    then show "t ?vrows = Inr (?q t) \<and> length (?q t) = length ?vrows" by simp
  qed
  from predict_chunk_nth [OF mem' rows, of lt]
  obtain ep es where pc: "predict_chunk conv chk ests lt df = Inr (ep, es)"
    and len: "length ep = length df" "length es = length df"
    and nth: "\<And>i. i < length df \<Longrightarrow>
                 if chk (conv (df ! i))
                 then ep ! i = (if ests = [] then NaN else np_mean (?col i))
                    \<and> es ! i = (if ests = [] then NaN else np_std (?col i))
                 else ep ! i = NaN \<and> es ! i = NaN"
    by blast
  have inv: "\<forall>i<length df. \<not> chk (conv (df ! i)) \<longrightarrow> ep ! i = NaN \<and> es ! i = NaN"
    using nth by (auto split: if_splits)
  have fin: "\<exists>x y. ep ! i = Fin x \<and> es ! i = Fin y"
    if ne: "ests \<noteq> []" and nn: "\<forall>t\<in>set ests. \<forall>v\<in>set (?q t). v \<noteq> NaN"
      and i: "i < length df" and v: "chk (conv (df ! i))" for i
  proof -
    have "length (filter chk (take i (map conv df))) < length ?vrows"
      using i v by (intro rank_less) auto
    then have j: "length (filter chk (map conv (take i df))) < length ?vrows"
      by (simp add: take_map)
    have "\<forall>v\<in>set (?col i). v \<noteq> NaN"
    proof
      fix v assume "v \<in> set (?col i)"
      then obtain t where t: "t \<in> set ests"
        and v: "v = ?g (?q t ! length (filter chk (map conv (take i df))))"
        by auto
      have "length (?q t) = length ?vrows" using mem' t by blast
      then have "?q t ! length (filter chk (map conv (take i df))) \<in> set (?q t)"
        using j by simp
      then have "?q t ! length (filter chk (map conv (take i df))) \<noteq> NaN"
        using nn t by blast
      then show "v \<noteq> NaN" unfolding v by (simp add: np_exp_Fin)
    qed
    moreover have "?col i \<noteq> []" using ne by simp
    ultimately obtain x y where "np_mean (?col i) = Fin x" "np_std (?col i) = Fin y"
      using np_mean_Fin [of "?col i"] np_std_Fin [of "?col i"] by blast
    then show ?thesis using nth [OF i] v ne by simp
  qed
  have "predict_chunk conv chk ests lt df = Inr (ep, es)
           \<and> length ep = length df \<and> length es = length df
           \<and> (\<forall>i<length df. \<not> chk (conv (df ! i)) \<longrightarrow> ep ! i = NaN \<and> es ! i = NaN)
           \<and> (ests \<noteq> [] \<and> (\<forall>t\<in>set ests. \<forall>v\<in>set (?q t). v \<noteq> NaN)
                \<longrightarrow> (\<forall>i<length df. chk (conv (df ! i)) \<longrightarrow> (\<exists>x y. ep ! i = Fin x \<and> es ! i = Fin y)))"
    using pc len inv fin by simp
  then show ?thesis by (intro exI)
qed

lemma predict_chunk_example:
  "predict_chunk (\<lambda>r. r) (\<lambda>r. r \<noteq> NaN)
        [\<lambda>xs. Inr (map (\<lambda>r. Fin 1) xs), \<lambda>xs. Inr (map (\<lambda>r. Fin 3) xs)] (YBool False)
        [Fin 5, NaN, Fin 7]
      = Inr ([Fin 2, NaN, Fin 2], [Fin 1, NaN, Fin 1])"
  by (simp add: predict_chunk_def loc_mask_def sk_predict_def np_array_def reduce_axis0_def
      column_def np_mean_def np_std_def mean_def std_def masked_assign_def)

text \<open>
  Claim C1. A chunk in which no row is valid has nothing to give to the ensemble
  members but zero rows; \<^verbatim>\<open>predict\<close> raises ValueError, the arrays of NaN are never
  written, and the run ends there: with a chunk size of 2, the two valid rows of the
  first chunk are written and the two invalid rows of the second chunk end the run.
  A chunk with at least one valid row is processed as the claim says
  (\<open>chunk_with_valid_row\<close>).
\<close>

theorem all_invalid_chunk_aborts:
  "predict_chunk example_convert example_valid [example_member] (YBool False) [NaN, NaN]
     = Inl ValueError
   \<and> main_regression \<lparr>training_variables = [''size''], log_target = None, class_name = None\<rparr>
        False False example_convert example_valid [example_member] (Some 2)
        [Fin 5, Fin 6, NaN, NaN] Map.empty
     = Inl (ValueError, [''gamma_energy_prediction'' \<mapsto> [Fin 1, Fin 1],
                         ''gamma_energy_prediction_std'' \<mapsto> [Fin 0, Fin 0]])"
  by (simp add: main_regression_def get_class_name_def get_log_target_def overwrite_step_def
      seq_def read_h5py_chunked_def Let_def upt_rec predict_chunk_def loc_mask_def sk_predict_def
      np_array_def reduce_axis0_def column_def np_mean_def np_std_def mean_def std_def
      masked_assign_def write_chunk_def create_dataset_def std_name_def
      example_convert_def example_valid_def example_member_def)

text \<open>
  Claim C3. With \<open>log_target: true\<close> in the configuration, for every valid row of a
  chunk the prediction is the mean, and the prediction-std the standard deviation, of
  the exponentiated predictions of the ensemble members for that row: both are taken
  in linear space. \<open>p t\<close> are the log-space predictions of member \<open>t\<close> for the valid
  rows of the chunk; the row at position \<open>i\<close> is the valid row number
  \<open>length (filter chk (map conv (take i df)))\<close>.
\<close>

theorem log_target_linear_space:
  fixes conv :: "'r \<Rightarrow> 'r" and chk :: "'r \<Rightarrow> bool" and p :: "'r member \<Rightarrow> real list"
    and ests :: "'r member list" and df :: "'r list"
  assumes "log_target cfg = Some (YBool True)"
    and "ests \<noteq> []"
    and "\<forall>t\<in>set ests. t (filter chk (map conv df)) = Inr (map Fin (p t))
                      \<and> length (p t) = length (filter chk (map conv df))"
    and "i < length df" and "chk (conv (df ! i))"
  shows "\<exists>ep es. predict_chunk conv chk ests (get_log_target cfg) df = Inr (ep, es)
           \<and> ep ! i = Fin (mean (map (\<lambda>t. exp (p t ! length (filter chk (map conv (take i df))))) ests))
           \<and> es ! i = Fin (std (map (\<lambda>t. exp (p t ! length (filter chk (map conv (take i df))))) ests))"
proof -
  let ?vrows = "filter chk (map conv df)"
  let ?j = "length (filter chk (map conv (take i df)))"
  let ?xs = "map (\<lambda>t. exp (p t ! ?j)) ests"
  let ?q = "\<lambda>t. map Fin (p t)"
  have lt: "get_log_target cfg = YBool True"
    using assms(1) by (simp add: get_log_target_def)
  have mem: "\<forall>t\<in>set ests. t ?vrows = Inr (?q t) \<and> length (?q t) = length ?vrows"
    using assms(3) by simp
  have "length (filter chk (take i (map conv df))) < length ?vrows"
    using assms(4,5) by (intro rank_less) auto
  then have j: "?j < length ?vrows" by (simp add: take_map)
  have "?vrows \<noteq> []"
  proof
    assume "?vrows = []"
    with j show False by (simp only: list.size)
  qed
  then have rows: "ests = [] \<or> ?vrows \<noteq> []" by (rule disjI2)
  have col: "map (\<lambda>t. np_exp (?q t ! ?j)) ests = map Fin ?xs"
  proof -
    have "np_exp (?q t ! ?j) = Fin (exp (p t ! ?j))" if "t \<in> set ests" for t
    proof -
      have "?j < length (p t)" using that assms(3) j by auto
      then show ?thesis by (simp add: np_exp_def)
    qed
    then show ?thesis by (simp add: comp_def)
  qed
  have ne: "?xs \<noteq> []" using assms(2) by simp
  from predict_chunk_nth [OF mem rows, of "YBool True"]
  obtain ep es where pc: "predict_chunk conv chk ests (YBool True) df = Inr (ep, es)"
    and nth: "\<forall>i<length df.
                 if chk (conv (df ! i))
                 then ep ! i = (if ests = [] then NaN
                                else np_mean (map (\<lambda>t. np_exp (?q t ! length (filter chk (map conv (take i df))))) ests))
                    \<and> es ! i = (if ests = [] then NaN
                                else np_std (map (\<lambda>t. np_exp (?q t ! length (filter chk (map conv (take i df))))) ests))
                 else ep ! i = NaN \<and> es ! i = NaN"
    by auto
  from nth assms(2,4,5)
  have "ep ! i = np_mean (map (\<lambda>t. np_exp (?q t ! ?j)) ests)"
    and "es ! i = np_std (map (\<lambda>t. np_exp (?q t ! ?j)) ests)"
    by auto
  then have "ep ! i = Fin (mean ?xs)" "es ! i = Fin (std ?xs)"
    unfolding col by (simp_all only: np_mean_map_Fin [OF ne] np_std_map_Fin [OF ne])
  with pc lt show ?thesis by simp
qed

theorem log_target_linear_space_witness:
  "(\<exists>ep es. predict_chunk (\<lambda>r. r) (\<lambda>r. r \<noteq> NaN)
                  [\<lambda>xs. Inr (map (\<lambda>r. Fin 0) xs), \<lambda>xs. Inr (map (\<lambda>r. Fin (ln 3)) xs)]
                  (get_log_target \<lparr>training_variables = [''size''],
                                    log_target = Some (YBool True), class_name = None\<rparr>)
                  [Fin 5, Fin 6, NaN, Fin 7, Fin 8] = Inr (ep, es)
          \<and> ep ! 3 = Fin 2 \<and> es ! 3 = Fin 1)"
proof -
  let ?cfg = "\<lparr>training_variables = [''size''], log_target = Some (YBool True), class_name = None\<rparr>"
  let ?ests = "[\<lambda>xs. Inr (map (\<lambda>r. Fin 0) xs), \<lambda>xs. Inr (map (\<lambda>r. Fin (ln 3)) xs)] :: fval member list"
  let ?df = "[Fin 5, Fin 6, NaN, Fin 7, Fin 8]"
  let ?p = "\<lambda>t :: fval member.
              map (\<lambda>v. case v of NaN \<Rightarrow> 0 | Fin x \<Rightarrow> x) (projr (t [Fin 5, Fin 6, Fin 7, Fin 8]))"
  have h1: "log_target ?cfg = Some (YBool True)" by simp
  have h2: "?ests \<noteq> []" by simp
  have h3: "\<forall>t\<in>set ?ests.
         t (filter (\<lambda>r. r \<noteq> NaN) (map (\<lambda>r. r) ?df)) = Inr (map Fin (?p t))
         \<and> length (?p t) = length (filter (\<lambda>r. r \<noteq> NaN) (map (\<lambda>r. r) ?df))"
    by simp
  have h4: "(3::nat) < length ?df" by simp
  have h5: "?df ! 3 \<noteq> NaN" by simp
  have m: "mean (map (\<lambda>t. exp (?p t ! length (filter (\<lambda>r. r \<noteq> NaN) (map (\<lambda>r. r) (take 3 ?df))))) ?ests) = 2"
    by (simp add: mean_def)
  have s: "std (map (\<lambda>t. exp (?p t ! length (filter (\<lambda>r. r \<noteq> NaN) (map (\<lambda>r. r) (take 3 ?df))))) ?ests) = 1"
    by (simp add: std_def mean_def)
  from log_target_linear_space [of ?cfg ?ests "\<lambda>r. r \<noteq> NaN" "\<lambda>r. r" ?df ?p 3, OF h1 h2 h3 h4 h5]
  have "\<exists>ep es. predict_chunk (\<lambda>r. r) (\<lambda>r. r \<noteq> NaN) ?ests (get_log_target ?cfg) ?df = Inr (ep, es)
          \<and> ep ! 3 = Fin 2 \<and> es ! 3 = Fin 1"
    unfolding m s .
  then show ?thesis .
qed


subsection \<open>The loop over the windows\<close>

lemma write_chunk_create:
  "g cn = None \<Longrightarrow> g (std_name cn) = None \<Longrightarrow>
   write_chunk cn start stop ep es g = Inr (g(cn \<mapsto> ep, std_name cn \<mapsto> es))"
  using std_name_neq [of cn]
  by (simp add: write_chunk_def seq_def create_dataset_def)

lemma write_chunk_append:
  assumes "g cn = Some d" and "g (std_name cn) = Some d'"
    and "length d = start" and "length d' = start"
    and "stop = start + length ep" and "length es = length ep"
  shows "write_chunk cn start stop ep es g = Inr (g(cn \<mapsto> d @ ep, std_name cn \<mapsto> d' @ es))"
  using assms std_name_neq [of cn]
  by (simp add: write_chunk_def seq_def resize_def write_slice_def Let_def)

lemma contiguous_take: "contiguous s chunks \<Longrightarrow> contiguous s (take k chunks)"
proof (induction chunks arbitrary: s k)
  case (Cons c chunks)
  then show ?case by (cases k; cases c) auto
qed simp

lemma contiguous_stop:
  "contiguous s chunks \<Longrightarrow> k < length chunks \<Longrightarrow>
   snd (snd (chunks ! k)) = s + length (concat (map fst (take (Suc k) chunks)))"
proof (induction chunks arbitrary: s k)
  case (Cons c chunks)
  then show ?case by (cases k; cases c) auto
qed simp

lemma chunk_index_in_range:
  assumes "0 < c" and "k < (n + c - 1) div c"
  shows "k * c < (n::nat)"
proof -
  have "Suc k \<le> (n + c - 1) div c" using assms(2) by simp
  then have "Suc k * c \<le> n + c - 1"
    using assms(1) by (simp add: less_eq_div_iff_mult_less_eq)
  then show ?thesis using assms(1) by simp
qed

lemma chunk_count_covers:
  assumes "0 < c"
  shows "(n::nat) \<le> ((n + c - 1) div c) * c"
proof -
  have "n + c - 1 < ((n + c - 1) div c) * c + c"
    using assms by (metis add.commute dividend_less_div_times mult.commute)
  then show ?thesis using assms by simp
qed

lemma windows_contiguous:
  fixes data :: "'r list" and c :: nat
  assumes c: "0 < c"
  defines "m \<equiv> (length data + c - 1) div c"
    and "f \<equiv> (\<lambda>chunk. let start = chunk * c; stop = min (length data) ((chunk + 1) * c)
                       in (take (stop - start) (drop start data), start, stop))"
  shows "k \<le> m \<Longrightarrow> contiguous (k * c) (map f [k..<m])
                    \<and> concat (map fst (map f [k..<m])) = drop (k * c) data"
proof (induction rule: inc_induct)
  case base
  have "length data \<le> m * c"
    unfolding m_def using c by (rule chunk_count_covers)
  then show ?case by simp
next
  case (step k)
  let ?n = "length data"
  let ?stop = "min ?n ((k + 1) * c)"
  have kc: "k * c < ?n"
    using c step.hyps(2) unfolding m_def by (rule chunk_index_in_range)
  have fk: "f k = (take (?stop - k * c) (drop (k * c) data), k * c, ?stop)"
    by (simp add: f_def Let_def)
  have upt: "[k..<m] = k # [Suc k..<m]"
    using step.hyps(2) by (simp add: upt_conv_Cons)
  have len: "length (take (?stop - k * c) (drop (k * c) data)) = ?stop - k * c"
    by simp
  have ge: "k * c \<le> ?stop" using kc by simp
  have ct: "contiguous ?stop (map f [Suc k..<m])"
  proof (cases "Suc k < m")
    case True
    then have "Suc k * c < ?n"
      using c unfolding m_def by (intro chunk_index_in_range)
    then have "?stop = Suc k * c" by simp
    then show ?thesis using step.IH by simp
  next
    case False
    then show ?thesis by simp
  qed
  have cc: "take (?stop - k * c) (drop (k * c) data) @ drop (Suc k * c) data = drop (k * c) data"
  proof (cases "(k + 1) * c \<le> ?n")
    case True
    then have "?stop - k * c = c" by simp
    moreover have "drop (Suc k * c) data = drop c (drop (k * c) data)"
      by simp
    moreover have "take c (drop (k * c) data) @ drop c (drop (k * c) data) = drop (k * c) data"
      by (rule append_take_drop_id)
    ultimately show ?thesis by (simp only:)
  next
    case False
    then have "?stop = ?n" by simp
    moreover have "drop (Suc k * c) data = []" using False by simp
    ultimately show ?thesis by simp
  qed
  show ?case
    using ct ge cc step.IH by (simp add: upt fk)
qed

lemma read_h5py_chunked_contract:
  assumes "read_h5py_chunked chunksize data = Inr chunks"
  shows "contiguous 0 chunks \<and> concat (map fst chunks) = data \<and> (data \<noteq> [] \<longrightarrow> chunks \<noteq> [])"
proof (cases chunksize)
  case None
  then show ?thesis using assms by (auto simp: read_h5py_chunked_def)
next
  case (Some c)
  with assms have c: "0 < c" by (auto simp: read_h5py_chunked_def Let_def split: if_splits)
  let ?m = "(length data + c - 1) div c"
  let ?f = "\<lambda>chunk. let start = chunk * c; stop = min (length data) ((chunk + 1) * c)
                       in (take (stop - start) (drop start data), start, stop)"
  have ch: "chunks = map ?f [0..<?m]"
    using assms Some c by (simp add: read_h5py_chunked_def Let_def)
  from windows_contiguous [OF c, of 0 data]
  have "contiguous 0 chunks" "concat (map fst chunks) = data"
    unfolding ch by simp_all
  moreover have "chunks \<noteq> []" if "data \<noteq> []"
  proof -
    have "c \<le> length data + c - 1" using that by (cases data) simp_all
    then have "0 < ?m" using c by (simp add: div_greater_zero_iff)
    then show ?thesis unfolding ch by simp
  qed
  ultimately show ?thesis by blast
qed



lemma read_h5py_chunked_example:
  "read_h5py_chunked (Some 2) [Fin 5, NaN, Fin 7]
     = Inr [([Fin 5, NaN], 0, 2), ([Fin 7], 2, 3)]"
  by (simp add: read_h5py_chunked_def Let_def upt_rec)


lemma predict_loop_append:
  fixes conv :: "'r \<Rightarrow> 'r" and chk :: "'r \<Rightarrow> bool" and lt :: yaml
    and ests :: "'r member list"
  shows "\<forall>c\<in>set chunks. \<exists>r. predict_chunk conv chk ests lt (fst c) = Inr r \<Longrightarrow>
         contiguous s chunks \<Longrightarrow> g cn = Some d \<Longrightarrow> g (std_name cn) = Some d' \<Longrightarrow>
         length d = s \<Longrightarrow> length d' = s \<Longrightarrow>
         predict_loop conv chk ests lt cn chunks g
           = Inr (g(cn \<mapsto> d @ concat (map (\<lambda>c. fst (projr (predict_chunk conv chk ests lt (fst c)))) chunks),
                    std_name cn \<mapsto> d' @ concat (map (\<lambda>c. snd (projr (predict_chunk conv chk ests lt (fst c)))) chunks)))"
proof (induction chunks arbitrary: s g d d')
  case Nil
  then show ?case by (simp add: map_upd_triv)
next
  case (Cons c chunks)
  obtain df start stop where c: "c = (df, start, stop)" by (cases c)
  from Cons.prems(1) c obtain ep es where pc: "predict_chunk conv chk ests lt df = Inr (ep, es)"
    by auto
  from predict_chunk_lengths [OF pc]
  have len: "length ep = length df" "length es = length df" by simp_all
  from Cons.prems(2) c have st: "start = s" "stop = s + length df" and ct: "contiguous stop chunks"
    by auto
  let ?g = "g(cn \<mapsto> d @ ep, std_name cn \<mapsto> d' @ es)"
  have w: "write_chunk cn start stop ep es g = Inr ?g"
    using Cons.prems st len by (intro write_chunk_append) simp_all
  have ok: "\<forall>c\<in>set chunks. \<exists>r. predict_chunk conv chk ests lt (fst c) = Inr r"
    using Cons.prems(1) by simp
  have "predict_loop conv chk ests lt cn chunks ?g
          = Inr (?g(cn \<mapsto> (d @ ep) @ concat (map (\<lambda>c. fst (projr (predict_chunk conv chk ests lt (fst c)))) chunks),
                    std_name cn \<mapsto> (d' @ es) @ concat (map (\<lambda>c. snd (projr (predict_chunk conv chk ests lt (fst c)))) chunks)))"
    using ok ct std_name_neq [of cn] Cons.prems st len
    by (intro Cons.IH [of stop]) simp_all
  then show ?case
    using std_name_neq [of cn] by (auto simp: c pc w seq_def fun_eq_iff)
qed

lemma predict_loop_fresh:
  fixes conv :: "'r \<Rightarrow> 'r" and chk :: "'r \<Rightarrow> bool" and lt :: yaml
    and ests :: "'r member list"
  assumes ok: "\<forall>c\<in>set chunks. \<exists>r. predict_chunk conv chk ests lt (fst c) = Inr r"
    and ct: "contiguous 0 chunks" and ne: "chunks \<noteq> []"
    and fresh: "g cn = None" "g (std_name cn) = None"
  shows "predict_loop conv chk ests lt cn chunks g
           = Inr (g(cn \<mapsto> concat (map (\<lambda>c. fst (projr (predict_chunk conv chk ests lt (fst c)))) chunks),
                    std_name cn \<mapsto> concat (map (\<lambda>c. snd (projr (predict_chunk conv chk ests lt (fst c)))) chunks)))"
proof -
  obtain df start stop rest where ch: "chunks = (df, start, stop) # rest"
    using ne by (cases chunks) auto
  from ok ch obtain ep es where pc: "predict_chunk conv chk ests lt df = Inr (ep, es)"
    by auto
  from predict_chunk_lengths [OF pc]
  have len: "length ep = length df" "length es = length df" by simp_all
  from ct ch have st: "stop = length df" and ctr: "contiguous stop rest"
    by auto
  let ?g = "g(cn \<mapsto> ep, std_name cn \<mapsto> es)"
  have w: "write_chunk cn start stop ep es g = Inr ?g"
    using fresh by (rule write_chunk_create)
  have okr: "\<forall>c\<in>set rest. \<exists>r. predict_chunk conv chk ests lt (fst c) = Inr r"
    using ok ch by simp
  have "predict_loop conv chk ests lt cn rest ?g
          = Inr (?g(cn \<mapsto> ep @ concat (map (\<lambda>c. fst (projr (predict_chunk conv chk ests lt (fst c)))) rest),
                    std_name cn \<mapsto> es @ concat (map (\<lambda>c. snd (projr (predict_chunk conv chk ests lt (fst c)))) rest)))"
    using okr ctr std_name_neq [of cn] st len
    by (intro predict_loop_append [of rest conv chk ests lt stop]) simp_all
  then show ?thesis
    using std_name_neq [of cn] by (auto simp: ch pc w seq_def fun_eq_iff)
qed

lemma length_concat_outs:
  fixes conv :: "'r \<Rightarrow> 'r" and chk :: "'r \<Rightarrow> bool" and lt :: yaml
    and ests :: "'r member list"
  assumes ok: "\<forall>c\<in>set chunks. \<exists>r. predict_chunk conv chk ests lt (fst c) = Inr r"
  shows "length (concat (map (\<lambda>c. fst (projr (predict_chunk conv chk ests lt (fst c)))) chunks))
           = length (concat (map fst chunks))
         \<and> length (concat (map (\<lambda>c. snd (projr (predict_chunk conv chk ests lt (fst c)))) chunks))
           = length (concat (map fst chunks))"
  using ok
proof (induction chunks)
  case (Cons c chunks)
  from Cons.prems obtain ep es where pc: "predict_chunk conv chk ests lt (fst c) = Inr (ep, es)"
    by auto
  from predict_chunk_lengths [OF pc] Cons.IH Cons.prems pc
  show ?case by simp
qed simp

text \<open>
  Claim C6. Starting from a group without the two prediction datasets, when the
  prediction raises nothing for each of the first \<open>k + 1\<close> windows of the reader, the run
  over these windows succeeds, and after it both datasets have the logical length
  \<open>end\<close> of window \<open>k\<close>; they hold the outputs of the windows so far, one after the other
  (created by the first window, grown and written at the offset by each later one).
\<close>

theorem dataset_length_tracks_rows:
  fixes conv :: "'r \<Rightarrow> 'r" and chk :: "'r \<Rightarrow> bool" and lt :: yaml
    and ests :: "'r member list"
  assumes rd: "read_h5py_chunked chunksize data = Inr chunks"
    and ok: "\<forall>c\<in>set (take (Suc k) chunks). \<exists>r. predict_chunk conv chk ests lt (fst c) = Inr r"
    and fresh: "g cn = None" "g (std_name cn) = None"
    and k: "k < length chunks"
  shows "\<exists>g' ep es. predict_loop conv chk ests lt cn (take (Suc k) chunks) g = Inr g'
           \<and> g' cn = Some ep \<and> g' (std_name cn) = Some es
           \<and> length ep = snd (snd (chunks ! k)) \<and> length es = snd (snd (chunks ! k))
           \<and> ep = concat (map (\<lambda>c. fst (projr (predict_chunk conv chk ests lt (fst c)))) (take (Suc k) chunks))
           \<and> es = concat (map (\<lambda>c. snd (projr (predict_chunk conv chk ests lt (fst c)))) (take (Suc k) chunks))"
proof -
  let ?pre = "take (Suc k) chunks"
  let ?ep = "concat (map (\<lambda>c. fst (projr (predict_chunk conv chk ests lt (fst c)))) ?pre)"
  let ?es = "concat (map (\<lambda>c. snd (projr (predict_chunk conv chk ests lt (fst c)))) ?pre)"
  have ct: "contiguous 0 chunks"
    using read_h5py_chunked_contract [OF rd] by blast
  then have ctp: "contiguous 0 ?pre" by (rule contiguous_take)
  have ne: "?pre \<noteq> []" using k by auto
  have run: "predict_loop conv chk ests lt cn ?pre g = Inr (g(cn \<mapsto> ?ep, std_name cn \<mapsto> ?es))"
    using ok ctp ne fresh by (rule predict_loop_fresh)
  have stop: "snd (snd (chunks ! k)) = length (concat (map fst ?pre))"
    using contiguous_stop [OF ct k] by simp
  have "length ?ep = snd (snd (chunks ! k))" "length ?es = snd (snd (chunks ! k))"
    unfolding stop using length_concat_outs [OF ok] by blast+
  then show ?thesis
    using run std_name_neq [of cn] by simp
qed

theorem dataset_length_tracks_rows_witness:
  "read_h5py_chunked (Some 2) [Fin 5, NaN, Fin 7] = Inr [([Fin 5, NaN], 0, 2), ([Fin 7], 2, 3)]
   \<and> (\<exists>g' ep es.
         predict_loop (\<lambda>r. r) (\<lambda>r. r \<noteq> NaN) [\<lambda>xs. Inr (map (\<lambda>r. Fin 1) xs)] (YBool False)
           ''gamma_energy_prediction'' (take (Suc 1) [([Fin 5, NaN], 0, 2), ([Fin 7], 2, 3)]) Map.empty
           = Inr g'
         \<and> g' ''gamma_energy_prediction'' = Some ep
         \<and> g' (std_name ''gamma_energy_prediction'') = Some es
         \<and> length ep = 3 \<and> length es = 3)"
proof -
  let ?chunks = "[([Fin 5, NaN], 0::nat, 2::nat), ([Fin 7], 2, 3)]"
  let ?ests = "[\<lambda>xs::fval list. Inr (map (\<lambda>r. Fin 1) xs)] :: fval member list"
  have h1: "read_h5py_chunked (Some 2) [Fin 5, NaN, Fin 7] = Inr ?chunks"
    by (simp add: read_h5py_chunked_def Let_def upt_rec)
  have h2: "\<forall>c\<in>set (take (Suc 1) ?chunks).
              \<exists>r. predict_chunk (\<lambda>r. r) (\<lambda>r. r \<noteq> NaN) ?ests (YBool False) (fst c) = Inr r"
    by (simp add: predict_chunk_def loc_mask_def sk_predict_def np_array_def reduce_axis0_def
        column_def np_mean_def np_std_def mean_def std_def masked_assign_def)
  have h3: "(Map.empty :: group) ''gamma_energy_prediction'' = None" by simp
  have h4: "(Map.empty :: group) (std_name ''gamma_energy_prediction'') = None" by simp
  have h5: "(1::nat) < length ?chunks" by simp
  from dataset_length_tracks_rows [where g = "Map.empty" and cn = "''gamma_energy_prediction''"
      and conv = "\<lambda>r. r" and chk = "\<lambda>r. r \<noteq> NaN" and lt = "YBool False", OF h1 h2 h3 h4 h5]
  obtain g' ep es where
    run: "predict_loop (\<lambda>r. r) (\<lambda>r. r \<noteq> NaN) ?ests (YBool False)
           ''gamma_energy_prediction'' (take (Suc 1) ?chunks) Map.empty = Inr g'"
    and ds: "g' ''gamma_energy_prediction'' = Some ep"
      "g' (std_name ''gamma_energy_prediction'') = Some es"
    and len: "length ep = snd (snd (?chunks ! 1))" "length es = snd (snd (?chunks ! 1))"
    by blast
  from len have "length ep = 3" "length es = 3" by simp_all
  with h1 run ds show ?thesis by blast
qed









text \<open>
  Claim C9. In the overwrite path, when the group holds the prediction column but not
  its companion \<open>_std\<close> column (and the overwrite is not refused), the step ends in a
  KeyError, and the file it leaves behind has lost the prediction column: the deletion
  is not atomic. The whole script ends the same way, before any chunk is read.
\<close>

theorem overwrite_not_atomic:
  assumes "g (get_class_name cfg) = Some d"
    and "g (std_name (get_class_name cfg)) = None"
    and "yes \<or> confirm"
  shows "overwrite_step yes confirm (get_class_name cfg) g
           = Inl (KeyError, g(get_class_name cfg := None))
         \<and> main_regression cfg yes confirm conv chk ests chunksize data g
           = Inl (KeyError, g(get_class_name cfg := None))"
proof -
  have "overwrite_step yes confirm (get_class_name cfg) g
          = Inl (KeyError, g(get_class_name cfg := None))"
    using assms std_name_neq [of "get_class_name cfg"]
    by (auto simp: overwrite_step_def seq_def del_dataset_def)
  then show ?thesis
    by (simp add: main_regression_def seq_def)
qed

theorem overwrite_not_atomic_witness:
  "(let cfg = \<lparr>training_variables = [''size''], log_target = None, class_name = None\<rparr>;
        g = [''gamma_energy_prediction'' \<mapsto> [Fin 1, NaN]]
    in g (get_class_name cfg) = Some [Fin 1, NaN]
       \<and> g (std_name (get_class_name cfg)) = None
       \<and> overwrite_step True False (get_class_name cfg) g = Inl (KeyError, Map.empty)
       \<and> main_regression cfg True False (\<lambda>r::real. r) (\<lambda>r. True) [] None [] g
            = Inl (KeyError, Map.empty))"
  using overwrite_not_atomic [of "[''gamma_energy_prediction'' \<mapsto> [Fin 1, NaN]]"
      "\<lparr>training_variables = [''size''], log_target = None, class_name = None\<rparr>"
      "[Fin 1, NaN]" True False "\<lambda>r::real. r" "\<lambda>r. True" "[]" None "[]"]
  by (simp add: get_class_name_def std_name_def)

section \<open>Properties of split_data.py\<close>

lemma py_round_bound: "\<bar>real_of_int (py_round x) - x\<bar> \<le> 1 / 2"
proof -
  have "real_of_int \<lfloor>x\<rfloor> \<le> x" "x < real_of_int \<lfloor>x\<rfloor> + 1" by linarith+
  then show ?thesis by (auto simp: py_round_def Let_def)
qed



lemma sampler_draw:
  assumes "sampler rng" and "0 \<le> n" and "n \<le> int (length data)"
  shows "random_choice rng s [0..<length data] n = Inr (rng s [0..<length data] (nat n))"
    and "length (fst (rng s [0..<length data] (nat n))) = nat n"
    and "distinct (fst (rng s [0..<length data] (nat n)))"
    and "set (fst (rng s [0..<length data] (nat n))) \<subseteq> {0..<length data}"
proof -
  show "random_choice rng s [0..<length data] n = Inr (rng s [0..<length data] (nat n))"
    using assms(2,3) by (simp add: random_choice_def)
  have "nat n \<le> length [0..<length data] \<and> distinct [0..<length data]"
    using assms(2,3) by simp
  with assms(1) have "length (fst (rng s [0..<length data] (nat n))) = nat n
      \<and> distinct (fst (rng s [0..<length data] (nat n)))
      \<and> set (fst (rng s [0..<length data] (nat n))) \<subseteq> set [0..<length data]"
    unfolding sampler_def by blast
  then show "length (fst (rng s [0..<length data] (nat n))) = nat n"
    and "distinct (fst (rng s [0..<length data] (nat n)))"
    and "set (fst (rng s [0..<length data] (nat n))) \<subseteq> {0..<length data}"
    by simp_all
qed



lemma nth_map_distinct:
  assumes "distinct data" and "distinct idx" and "set idx \<subseteq> {0..<length data}"
  shows "distinct (map (\<lambda>i. data ! i) idx)"
proof -
  have "inj_on (\<lambda>i. data ! i) (set idx)"
  proof (rule inj_onI)
    fix x y assume "x \<in> set idx" "y \<in> set idx" "data ! x = data ! y"
    moreover from this assms(3) have "x < length data" "y < length data" by auto
    ultimately show "x = y" using assms(1) by (simp add: nth_eq_iff_index_eq)
  qed
  then show ?thesis using assms(2) by (simp add: distinct_map)
qed

lemma sample_parts_props:
  assumes "sampler rng"
  shows "distinct data \<Longrightarrow> sample_parts rng s base f data nes = Inr fs \<Longrightarrow>
         distinct (concat (map snd fs)) \<and> set (concat (map snd fs)) \<subseteq> set data
         \<and> map (\<lambda>p. int (length (snd p))) fs = map fst nes
         \<and> map fst fs = map (\<lambda>p. output_path base (snd p) f) nes"
proof (induction nes arbitrary: s data fs)
  case Nil
  then show ?case by simp
next
  case (Cons p nes)
  obtain n nm where p: "p = (n, nm)" by (cases p)
  let ?all = "[0..<length data]"
  let ?sel = "fst (rng s ?all (nat n))"
  let ?s' = "snd (rng s ?all (nat n))"
  let ?part = "map (\<lambda>i. data ! i) ?sel"
  let ?keep = "filter (\<lambda>i. i \<notin> set ?sel) ?all"
  let ?data' = "map (\<lambda>i. data ! i) ?keep"
  have n: "0 \<le> n" "n \<le> int (length data)"
    using Cons.prems(2) by (auto simp: p Let_def random_choice_def split: if_splits)
  note d = sampler_draw [OF assms n, of s]
  from Cons.prems(2) d(1) obtain fs' where
    rest: "sample_parts rng ?s' base f ?data' nes = Inr fs'"
    and fs: "fs = (output_path base nm f, ?part) # fs'"
    by (auto simp: p Let_def split: sum.splits prod.splits)
  have dp: "distinct ?part"
    using Cons.prems(1) d(3,4) by (rule nth_map_distinct)
  have dd: "distinct ?data'"
    using Cons.prems(1) by (intro nth_map_distinct) auto
  have disj: "set ?part \<inter> set ?data' = {}"
  proof -
    have "data ! i \<noteq> data ! j" if "i \<in> set ?sel" "j \<in> set ?keep" for i j
    proof -
      have "i < length data" "j < length data" "i \<noteq> j" using that d(4) by auto
      then show ?thesis using Cons.prems(1) by (simp add: nth_eq_iff_index_eq)
    qed
    then show ?thesis by auto
  qed
  have sub: "set ?part \<subseteq> set data" "set ?data' \<subseteq> set data"
    using d(4) by auto
  from Cons.IH [OF dd rest]
  have ih: "distinct (concat (map snd fs'))" "set (concat (map snd fs')) \<subseteq> set ?data'"
    "map (\<lambda>p. int (length (snd p))) fs' = map fst nes"
    "map fst fs' = map (\<lambda>p. output_path base (snd p) f) nes"
    by simp_all
  have "distinct (concat (map snd fs))"
    using dp ih(1,2) disj unfolding fs by auto
  moreover have "set (concat (map snd fs)) \<subseteq> set data"
    using sub ih(2) unfolding fs by auto
  moreover have "map (\<lambda>p. int (length (snd p))) fs = map fst (p # nes)"
    using ih(3) d(2) n unfolding fs p by simp
  moreover have "map fst fs = map (\<lambda>p. output_path base (snd p) f) (p # nes)"
    using ih(4) unfolding fs p by simp
  ultimately show ?case by blast
qed

lemma distinct_concat_disjoint:
  "distinct (concat xs) \<Longrightarrow> i < j \<Longrightarrow> j < length xs \<Longrightarrow> set (xs ! i) \<inter> set (xs ! j) = {}"
proof (induction xs arbitrary: i j)
  case (Cons x xs)
  show ?case
  proof (cases i)
    case 0
    then obtain j' where j: "j = Suc j'" using Cons.prems(2) by (cases j) auto
    then have "xs ! j' \<in> set xs" using Cons.prems(3) by simp
    then show ?thesis using Cons.prems(1) 0 j by auto
  next
    case (Suc i')
    then obtain j' where "j = Suc j'" using Cons.prems(2) by (cases j) auto
    then show ?thesis using Cons.IH [of i' j'] Cons.prems Suc by simp
  qed
qed simp

lemma length_num_events: "length (num_events n fraction) = length fraction"
  by (simp add: num_events_def Let_def)


lemma num_events_nth:
  assumes "Suc i < length fraction"
  shows "num_events n fraction ! i = py_round (real n * fraction ! i)"
  using assms by (simp add: num_events_def Let_def)

lemma num_events_last:
  assumes "fraction \<noteq> []"
  shows "last (num_events n fraction)
           = py_round (real n * last fraction)
             - max 0 (sum_list (map (\<lambda>f. py_round (real n * f)) fraction) - int n)"
proof -
  let ?ne = "map (\<lambda>f. py_round (real n * f)) fraction"
  have ne: "?ne \<noteq> []" using assms by simp
  have l: "last ?ne = py_round (real n * last fraction)"
    using assms by (simp add: last_map)
  show ?thesis
  proof (cases "int n < sum_list ?ne")
    case False
    then show ?thesis using l by (simp add: num_events_def Let_def)
  next
    case True
    have "?ne[length ?ne - 1 := last ?ne - (sum_list ?ne - int n)]
            = butlast ?ne @ [last ?ne - (sum_list ?ne - int n)]"
      using ne by (metis append_butlast_last_id length_butlast list_update_length)
    then have "last (num_events n fraction) = last ?ne - (sum_list ?ne - int n)"
      using True by (simp add: num_events_def Let_def)
    then show ?thesis using True l by simp
  qed
qed

lemma sampler_first_rows: "sampler first_rows"
  by (auto simp: sampler_def first_rows_def dest: in_set_takeD)

lemma sample_parts_negative:
  "nes \<noteq> [] \<Longrightarrow> fst (last nes) < 0 \<Longrightarrow>
   \<exists>fs. sample_parts rng s base f data nes = Inl (ValueError, fs)"
proof (induction nes arbitrary: s data)
  case (Cons p nes)
  obtain n nm where p: "p = (n, nm)" by (cases p)
  show ?case
  proof (cases "random_choice rng s [0..<length data] n")
    case (Inl e)
    then have "e = ValueError" by (auto simp: random_choice_def split: if_splits)
    with Inl show ?thesis by (simp add: p Let_def)
  next
    case (Inr r)
    obtain sel s' where r: "r = (sel, s')" by (cases r)
    have ne: "nes \<noteq> []"
    proof
      assume "nes = []"
      with Cons.prems(2) have "n < 0" by (simp add: p)
      then have "random_choice rng s [0..<length data] n = Inl ValueError"
        by (simp add: random_choice_def)
      with Inr show False by simp
    qed
    then have "fst (last nes) < 0" using Cons.prems(2) by simp
    from Cons.IH [OF ne this]
    obtain fs where "sample_parts rng s' base f
        (map (\<lambda>i. data ! i) (filter (\<lambda>i. i \<notin> set sel) [0..<length data])) nes = Inl (ValueError, fs)"
      by blast
    then show ?thesis using Inr r by (simp add: p Let_def)
  qed
qed simp

text \<open>
  Claim C4, as the code has it. When the run of the splitter completes (with a
  sampler, on rows with different index labels), there is one part for each fraction,
  the parts are pairwise disjoint sets of rows of the input, and their sizes sum to at
  most the number of rows. Every part but the last has \<open>round (n_total * f)\<close> rows, which
  is within half a row of its requested share. The last part has its rounded count less
  the whole overflow of the rounded counts over the number of rows, so it can miss its
  requested share by more than one row: four parts of 8 rows with the fractions 3/16,
  3/16, 3/16 and 7/16 have 2 rows each.
\<close>

theorem split_partitions:
  fixes data :: "'a list"
  assumes smp: "sampler rng" and dist: "distinct data"
    and run: "snd (main_split rng s data base fraction name f) = Inr files"
  shows "length files = length fraction
         \<and> (\<forall>i j. i < j \<and> j < length files \<longrightarrow> set (snd (files ! i)) \<inter> set (snd (files ! j)) = {})
         \<and> (\<forall>i<length files. set (snd (files ! i)) \<subseteq> set data)
         \<and> sum_list (map (\<lambda>p. length (snd p)) files) \<le> length data
         \<and> (\<forall>i. Suc i < length files \<longrightarrow>
               int (length (snd (files ! i))) = py_round (real (length data) * fraction ! i)
               \<and> \<bar>real (length (snd (files ! i))) - real (length data) * fraction ! i\<bar> \<le> 1 / 2)
         \<and> (files \<noteq> [] \<longrightarrow>
               int (length (snd (last files)))
                 = py_round (real (length data) * last fraction)
                   - max 0 (sum_list (map (\<lambda>f. py_round (real (length data) * f)) fraction)
                            - int (length data)))"
proof -
  let ?n = "length data"
  let ?ne = "num_events ?n fraction"
  have len: "length fraction = length name"
    using run by (auto simp: main_split_def split: if_splits)
  then have sp: "sample_parts rng s base f data (zip ?ne name) = Inr files"
    using run by (simp add: main_split_def Let_def)
  have lz: "map fst (zip ?ne name) = ?ne"
    using len by (simp add: length_num_events)
  from sample_parts_props [OF smp dist sp]
  have dc: "distinct (concat (map snd files))"
    and sub: "set (concat (map snd files)) \<subseteq> set data"
    and sizes: "map (\<lambda>p. int (length (snd p))) files = ?ne"
    by (simp_all add: lz)
  have lf: "length files = length fraction"
    using sizes length_num_events [of ?n fraction] by (metis length_map)
  have size_nth: "int (length (snd (files ! i))) = ?ne ! i" if "i < length files" for i
  proof -
    have "map (\<lambda>p. int (length (snd p))) files ! i = ?ne ! i" by (simp only: sizes)
    then show ?thesis using that by simp
  qed
  have disj: "\<forall>i j. i < j \<and> j < length files \<longrightarrow> set (snd (files ! i)) \<inter> set (snd (files ! j)) = {}"
  proof (intro allI impI)
    fix i j assume ij: "i < j \<and> j < length files"
    then have "set (map snd files ! i) \<inter> set (map snd files ! j) = {}"
      using dc by (intro distinct_concat_disjoint) simp_all
    then show "set (snd (files ! i)) \<inter> set (snd (files ! j)) = {}"
      using ij by simp
  qed
  have subs: "\<forall>i<length files. set (snd (files ! i)) \<subseteq> set data"
  proof (intro allI impI)
    fix i assume "i < length files"
    then have "files ! i \<in> set files" by simp
    then have "set (snd (files ! i)) \<subseteq> set (concat (map snd files))" by auto
    then show "set (snd (files ! i)) \<subseteq> set data" using sub by (rule subset_trans)
  qed
  have total: "sum_list (map (\<lambda>p. length (snd p)) files) \<le> length data"
  proof -
    have "sum_list (map (\<lambda>p. length (snd p)) files) = length (concat (map snd files))"
      by (simp add: length_concat comp_def)
    also have "\<dots> = card (set (concat (map snd files)))"
      using dc by (simp only: distinct_card)
    also have "\<dots> \<le> card (set data)"
      using sub by (intro card_mono) simp_all
    also have "\<dots> \<le> length data" by (rule card_length)
    finally show ?thesis .
  qed
  have inner: "\<forall>i. Suc i < length files \<longrightarrow>
               int (length (snd (files ! i))) = py_round (real ?n * fraction ! i)
               \<and> \<bar>real (length (snd (files ! i))) - real ?n * fraction ! i\<bar> \<le> 1 / 2"
  proof (intro allI impI)
    fix i assume i: "Suc i < length files"
    then have "int (length (snd (files ! i))) = ?ne ! i" by (intro size_nth) simp
    also have "\<dots> = py_round (real ?n * fraction ! i)"
      using i lf by (intro num_events_nth) simp
    finally have eq: "int (length (snd (files ! i))) = py_round (real ?n * fraction ! i)" .
    then have r: "real (length (snd (files ! i))) = real_of_int (py_round (real ?n * fraction ! i))"
      by (metis of_int_of_nat_eq)
    have "\<bar>real (length (snd (files ! i))) - real ?n * fraction ! i\<bar> \<le> 1 / 2"
      unfolding r by (rule py_round_bound)
    with eq show "int (length (snd (files ! i))) = py_round (real ?n * fraction ! i)
               \<and> \<bar>real (length (snd (files ! i))) - real ?n * fraction ! i\<bar> \<le> 1 / 2"
      by (rule conjI)
  qed
  have lastp: "files \<noteq> [] \<longrightarrow>
               int (length (snd (last files)))
                 = py_round (real ?n * last fraction)
                   - max 0 (sum_list (map (\<lambda>f. py_round (real ?n * f)) fraction) - int ?n)"
  proof
    assume ne: "files \<noteq> []"
    then have fr: "fraction \<noteq> []" using lf by auto
    have "int (length (snd (last files))) = last (map (\<lambda>p. int (length (snd p))) files)"
      using ne by (simp add: last_map)
    also have "\<dots> = last ?ne" by (simp only: sizes)
    finally show "int (length (snd (last files)))
                 = py_round (real ?n * last fraction)
                   - max 0 (sum_list (map (\<lambda>f. py_round (real ?n * f)) fraction) - int ?n)"
      using num_events_last [OF fr, of ?n] by simp
  qed
  show ?thesis
    using lf disj subs total inner lastp by (intro conjI)
qed


theorem split_partitions_witness:
  "snd (main_split first_rows () [10::nat, 11, 12, 13] ''out'' [1 / 2, 1 / 2] [''train'', ''test''] Hdf5)
     = Inr [(''out_train.hdf5'', [10, 11]), (''out_test.hdf5'', [12, 13])]
   \<and> set (snd ([(''out_train.hdf5'', [10::nat, 11]), (''out_test.hdf5'', [12, 13])] ! 0))
       \<inter> set (snd ([(''out_train.hdf5'', [10::nat, 11]), (''out_test.hdf5'', [12, 13])] ! 1)) = {}
   \<and> sum_list (map (\<lambda>p. length (snd p)) [(''out_train.hdf5'', [10::nat, 11]), (''out_test.hdf5'', [12, 13])])
       \<le> length [10::nat, 11, 12, 13]
   \<and> \<bar>real (length (snd ([(''out_train.hdf5'', [10::nat, 11]), (''out_test.hdf5'', [12, 13])] ! 0)))
        - real (length [10::nat, 11, 12, 13]) * [1 / 2, 1 / 2] ! 0\<bar> \<le> 1 / 2"
proof -
  let ?data = "[10::nat, 11, 12, 13]"
  let ?files = "[(''out_train.hdf5'', [10::nat, 11]), (''out_test.hdf5'', [12, 13])]"
  have h2: "distinct ?data" by simp
  have h3: "snd (main_split first_rows () ?data ''out'' [1 / 2, 1 / 2] [''train'', ''test''] Hdf5)
              = Inr ?files"
    by (simp add: main_split_def num_events_def py_round_def Let_def random_choice_def
        first_rows_def output_path_def upt_rec)
  note inst = split_partitions [OF sampler_first_rows h2 h3]
  from inst have "\<forall>i j. i < j \<and> j < length ?files \<longrightarrow>
      set (snd (?files ! i)) \<inter> set (snd (?files ! j)) = {}" by blast
  then have a: "set (snd (?files ! 0)) \<inter> set (snd (?files ! 1)) = {}" by simp
  from inst have b: "sum_list (map (\<lambda>p. length (snd p)) ?files) \<le> length ?data" by blast
  from inst have "\<forall>i. Suc i < length ?files \<longrightarrow>
      int (length (snd (?files ! i))) = py_round (real (length ?data) * [1 / 2, 1 / 2] ! i)
      \<and> \<bar>real (length (snd (?files ! i))) - real (length ?data) * [1 / 2, 1 / 2] ! i\<bar> \<le> 1 / 2"
    by blast
  then have c: "\<bar>real (length (snd (?files ! 0))) - real (length ?data) * [1 / 2, 1 / 2] ! 0\<bar> \<le> 1 / 2"
    by simp
  from h3 a b c show ?thesis by (intro conjI)
qed

theorem split_deviation_counterexample:
  "fst (main_split first_rows () [10::nat, 11, 12, 13, 14, 15, 16, 17] ''out''
          [3 / 16, 3 / 16, 3 / 16, 7 / 16] [''a'', ''b'', ''c'', ''d''] Hdf5) = []
   \<and> snd (main_split first_rows () [10::nat, 11, 12, 13, 14, 15, 16, 17] ''out''
          [3 / 16, 3 / 16, 3 / 16, 7 / 16] [''a'', ''b'', ''c'', ''d''] Hdf5)
       = Inr [(''out_a.hdf5'', [10, 11]), (''out_b.hdf5'', [12, 13]), (''out_c.hdf5'', [14, 15]),
              (''out_d.hdf5'', [16, 17])]
   \<and> \<not> \<bar>real (length [16::nat, 17])
          - real (length [10::nat, 11, 12, 13, 14, 15, 16, 17]) * (7 / 16)\<bar> \<le> 1"
  by (simp add: main_split_def num_events_def py_round_def Let_def random_choice_def
      first_rows_def output_path_def upt_rec)





text \<open>
  Claim C10. When the rounded counts sum to more than the number of rows, the whole
  overflow is taken from the last count and every other count stays as rounded. When
  the overflow is larger than the last count, the last count is negative, and the run
  ends in the ValueError of a sampling step; it does not write an empty last part.
\<close>

theorem overflow_on_last_part:
  fixes data :: "'a list"
  assumes "int (length data) < sum_list (map (\<lambda>f. py_round (real (length data) * f)) fraction)"
    and "length fraction = length name"
  shows "num_events (length data) fraction
           = butlast (map (\<lambda>f. py_round (real (length data) * f)) fraction)
             @ [last (map (\<lambda>f. py_round (real (length data) * f)) fraction)
                - (sum_list (map (\<lambda>f. py_round (real (length data) * f)) fraction) - int (length data))]
         \<and> (last (map (\<lambda>f. py_round (real (length data) * f)) fraction)
               < sum_list (map (\<lambda>f. py_round (real (length data) * f)) fraction) - int (length data)
             \<longrightarrow> last (num_events (length data) fraction) < 0
                 \<and> (\<exists>files. snd (main_split rng s data base fraction name f) = Inl (ValueError, files)))"
proof -
  let ?n = "length data"
  let ?ne = "map (\<lambda>f. py_round (real ?n * f)) fraction"
  let ?adj = "butlast ?ne @ [last ?ne - (sum_list ?ne - int ?n)]"
  have ne: "?ne \<noteq> []" using assms(1) by auto
  have "?ne[length ?ne - 1 := last ?ne - (sum_list ?ne - int ?n)] = ?adj"
    using ne by (metis append_butlast_last_id length_butlast list_update_length)
  then have adj: "num_events ?n fraction = ?adj"
    using assms(1) by (simp add: num_events_def Let_def)
  have fail: "last (num_events ?n fraction) < 0
        \<and> (\<exists>files. snd (main_split rng s data base fraction name f) = Inl (ValueError, files))"
    if neg: "last ?ne < sum_list ?ne - int ?n"
  proof -
    have l: "last (num_events ?n fraction) < 0" using neg unfolding adj by simp
    let ?z = "zip (num_events ?n fraction) name"
    have z: "?z \<noteq> []" using ne assms(2) unfolding adj by (cases name) auto
    have "length (num_events ?n fraction) = length name"
      using assms(2) by (simp add: length_num_events)
    then have "map fst ?z = num_events ?n fraction" by simp
    then have "fst (last ?z) = last (num_events ?n fraction)"
      using z by (metis last_map)
    then have "fst (last ?z) < 0" using l by simp
    from sample_parts_negative [OF z this, of rng s base f data]
    obtain fs where "sample_parts rng s base f data ?z = Inl (ValueError, fs)" by blast
    then have "snd (main_split rng s data base fraction name f) = Inl (ValueError, fs)"
      using assms(2) by (simp add: main_split_def Let_def)
    with l show ?thesis by blast
  qed
  show ?thesis using adj fail by blast
qed

theorem overflow_on_last_part_witness:
  "num_events (length [10::nat, 11]) [1, 1, 1 / 2] = [2, 2, - 2]
   \<and> last (num_events (length [10::nat, 11]) [1, 1, 1 / 2]) < 0
   \<and> (\<exists>files. snd (main_split first_rows () [10::nat, 11] ''out'' [1, 1, 1 / 2]
                      [''a'', ''b'', ''c''] Hdf5) = Inl (ValueError, files))"
proof -
  let ?data = "[10::nat, 11]"
  let ?fr = "[1, 1, 1 / 2] :: real list"
  have r: "map (\<lambda>f. py_round (real (length ?data) * f)) ?fr = [2, 2, 1]"
    by (simp add: py_round_def Let_def)
  have h1: "int (length ?data) < sum_list (map (\<lambda>f. py_round (real (length ?data) * f)) ?fr)"
    unfolding r by simp
  have h2: "length ?fr = length [''a'', ''b'', ''c'']" by simp
  have neg: "last (map (\<lambda>f. py_round (real (length ?data) * f)) ?fr)
               < sum_list (map (\<lambda>f. py_round (real (length ?data) * f)) ?fr) - int (length ?data)"
    unfolding r by simp
  note inst = overflow_on_last_part [OF h1 h2, of first_rows "()" "''out''" Hdf5]
  from inst have "num_events (length ?data) ?fr = [2, 2, - 2]" unfolding r by simp
  moreover from inst neg have "last (num_events (length ?data) ?fr) < 0
      \<and> (\<exists>files. snd (main_split first_rows () ?data ''out'' ?fr [''a'', ''b'', ''c''] Hdf5)
                    = Inl (ValueError, files))"
    by blast
  ultimately show ?thesis by blast
qed

section \<open>Properties of apply_separation_model.py\<close>

lemma separation_rejects_source_features:
  "has_source_dependent_columns (columns_to_read cfg) \<Longrightarrow>
   main_separation has_source_dependent_columns cfg rest g = Inl (ClickException, g)"
  by (simp add: main_separation_def)

text \<open>
  Claim C5. The separation apply script refuses a configuration whose columns depend on
  the source position, before anything is predicted or written. The regression apply
  script has no such check: with the source-dependent feature \<open>theta\<close> among its training
  variables it predicts and writes both prediction datasets.
\<close>

theorem regression_apply_has_no_source_check:
  "main_separation (\<lambda>columns. ''theta'' \<in> set columns) \<lparr>columns_to_read = [''theta'', ''size'']\<rparr>
      (\<lambda>g. Inr g) Map.empty = Inl (ClickException, Map.empty)
   \<and> main_regression \<lparr>training_variables = [''theta'', ''size''], log_target = None, class_name = None\<rparr>
        False False (\<lambda>r. r) (\<lambda>r. r \<noteq> NaN) [\<lambda>xs. Inr (map (\<lambda>r. Fin 1) xs)] None [Fin 5] Map.empty
      = Inr [''gamma_energy_prediction'' \<mapsto> [Fin 1], ''gamma_energy_prediction_std'' \<mapsto> [Fin 0]]"
  by (simp add: main_separation_def main_regression_def get_class_name_def get_log_target_def
      overwrite_step_def seq_def read_h5py_chunked_def Let_def predict_chunk_def loc_mask_def
      sk_predict_def np_array_def reduce_axis0_def column_def np_mean_def np_std_def mean_def std_def
      masked_assign_def write_chunk_def create_dataset_def std_name_def)

section \<open>Properties of train_energy_regressor.py\<close>

lemma rows_ok: "\<forall>i\<in>set idx. i < length xs \<Longrightarrow> rows xs idx = Inr (map (\<lambda>i. xs ! i) idx)"
  by (simp add: rows_def list_all_iff)

lemma fresh_copy_fold_stateless:
  assumes "\<forall>m m' xs ys. fit m xs ys = fit m' xs ys"
  shows "fresh_copy_fold fit predict r2 lt X y m c = fresh_copy_fold fit predict r2 lt X y m' c"
proof -
  obtain k train test where c: "c = (k, train, test)" by (cases c)
  have "fit m (map (\<lambda>i. X ! i) train) (map (\<lambda>i. y ! i) train)
          = fit m' (map (\<lambda>i. X ! i) train) (map (\<lambda>i. y ! i) train)"
    using assms by blast
  then show ?thesis by (simp add: fresh_copy_fold_def c)
qed

lemma cv_loop_step:
  assumes "\<forall>i\<in>set train \<union> set test. i < length X \<and> i < length y"
  shows "cv_loop fit predict r2 lt X y ((k, train, test) # rest) m
           = (case cv_loop fit predict r2 lt X y rest
                     (fit m (map (\<lambda>i. X ! i) train) (map (\<lambda>i. y ! i) train)) of
                Inl e \<Rightarrow> Inl e
              | Inr (results, final) \<Rightarrow>
                  Inr (fresh_copy_fold fit predict r2 lt X y m (k, train, test) # results, final))"
proof -
  have "rows X train = Inr (map (\<lambda>i. X ! i) train)" "rows X test = Inr (map (\<lambda>i. X ! i) test)"
    "rows y train = Inr (map (\<lambda>i. y ! i) train)" "rows y test = Inr (map (\<lambda>i. y ! i) test)"
    using assms by (simp_all add: rows_ok)
  then show ?thesis
    by (simp add: fresh_copy_fold_def Let_def split: sum.splits prod.splits)
qed

text \<open>
  Claim C7, as the code has it. The cross validation makes no copy of the estimator: it
  calls \<open>fit\<close> on the one regressor object in every fold, so each fit starts from the
  state the fit of the fold before has left (\<open>cv_loop_step\<close>). When \<open>fit\<close> does not
  depend on that state, and the folds index rows of the data, every fold has the result
  the specification describes: the estimator fitted on the fold's training rows predicts
  the held-out rows, and labels and predictions are exponentiated under
  \<open>log_target: true\<close> before the score is computed.
\<close>

theorem cv_refits_one_estimator:
  fixes fit :: "'m \<Rightarrow> 'x list \<Rightarrow> real list \<Rightarrow> 'm"
  assumes stateless: "\<forall>m m' xs ys. fit m xs ys = fit m' xs ys"
    and valid: "\<forall>c\<in>set folds. \<forall>i\<in>set (fst (snd c)) \<union> set (snd (snd c)). i < length X \<and> i < length y"
  shows "\<exists>final. cv_loop fit predict r2 lt X y folds regressor
            = Inr (map (fresh_copy_fold fit predict r2 lt X y regressor) folds, final)"
  using valid
proof (induction folds arbitrary: regressor)
  case Nil
  show ?case by simp
next
  case (Cons c folds)
  obtain k train test where c: "c = (k, train, test)" by (cases c)
  let ?m = "fit regressor (map (\<lambda>i. X ! i) train) (map (\<lambda>i. y ! i) train)"
  have v: "\<forall>i\<in>set train \<union> set test. i < length X \<and> i < length y"
    using Cons.prems by (simp add: c)
  have "\<forall>c\<in>set folds. \<forall>i\<in>set (fst (snd c)) \<union> set (snd (snd c)). i < length X \<and> i < length y"
    using Cons.prems by simp
  from Cons.IH [OF this, of ?m]
  obtain final where ih: "cv_loop fit predict r2 lt X y folds ?m
            = Inr (map (fresh_copy_fold fit predict r2 lt X y ?m) folds, final)" by blast
  have eqm: "map (fresh_copy_fold fit predict r2 lt X y ?m) folds
          = map (fresh_copy_fold fit predict r2 lt X y regressor) folds"
    using fresh_copy_fold_stateless [OF stateless] by (intro map_cong) auto
  have "cv_loop fit predict r2 lt X y (c # folds) regressor
          = Inr (fresh_copy_fold fit predict r2 lt X y regressor (k, train, test)
                   # map (fresh_copy_fold fit predict r2 lt X y ?m) folds, final)"
    unfolding c cv_loop_step [OF v] ih by simp
  then show ?case unfolding eqm c by auto
qed

theorem cv_refits_one_estimator_witness:
  "\<exists>final. cv_loop mean_fit const_predict r2_score (YBool True) [0, 1, 2, 3] [0, 0, ln 2, ln 2]
              [(0, [2, 3], [0, 1]), (1, [0, 1], [2, 3])] None
     = Inr ([(0, [1, 1], [2, 2], 0), (0, [2, 2], [1, 1], 1)], final)"
proof -
  have h1: "\<forall>m m' xs ys. mean_fit m xs ys = mean_fit m' xs ys"
    by (simp add: mean_fit_def)
  have h2: "\<forall>c\<in>set [(0::nat, [2, 3], [0, 1]), (1, [0, 1], [2::nat, 3::nat])].
              \<forall>i\<in>set (fst (snd c)) \<union> set (snd (snd c)).
                 i < length [0, 1, 2, 3 :: real] \<and> i < length [0, 0, ln 2, ln 2 :: real]"
    by simp
  have r: "map (fresh_copy_fold mean_fit const_predict r2_score (YBool True) [0, 1, 2, 3]
                  [0, 0, ln 2, ln 2] None) [(0, [2, 3], [0, 1]), (1, [0, 1], [2, 3])]
             = [(0, [1, 1], [2, 2], 0), (0, [2, 2], [1, 1], 1)]"
    by (simp add: fresh_copy_fold_def mean_fit_def const_predict_def r2_score_def undo_log_def
        mean_def Let_def)
  from cv_refits_one_estimator [OF h1 h2, of const_predict r2_score "YBool True" None]
  show ?thesis unfolding r .
qed

theorem fresh_copy_counterexample:
  "cv_loop keep_first_fit const_predict r2_score (YBool False) [0, 1, 2, 3] [1, 2, 3, 4]
      [(0, [2, 3], [0, 1]), (1, [0, 1], [2, 3])] None
     = Inr ([(- 16, [1, 2], [7 / 2, 7 / 2], 0), (0, [3, 4], [7 / 2, 7 / 2], 1)], Some (7 / 2))
   \<and> map (fresh_copy_fold keep_first_fit const_predict r2_score (YBool False) [0, 1, 2, 3]
           [1, 2, 3, 4] None) [(0, [2, 3], [0, 1]), (1, [0, 1], [2, 3])]
     = [(- 16, [1, 2], [7 / 2, 7 / 2], 0), (- 16, [3, 4], [3 / 2, 3 / 2], 1)]
   \<and> [(- 16, [1, 2], [7 / 2, 7 / 2], 0), (0, [3, 4], [7 / 2, 7 / 2], 1)]
       \<noteq> [(- 16 :: real, [1, 2 :: real], [7 / 2, 7 / 2 :: real], 0 :: nat),
           (- 16, [3, 4], [3 / 2, 3 / 2], 1)]"
  by (simp add: rows_def fresh_copy_fold_def keep_first_fit_def const_predict_def r2_score_def
      undo_log_def mean_def Let_def power2_eq_square)

end
